theory Spec2Isabelle
  imports Complex_Main
begin

section \<open>The store: events, bookings and line items\<close>

text \<open>
  The tables of the migrations (\<^verbatim>\<open>events\<close>, \<^verbatim>\<open>bookings\<close>, \<^verbatim>\<open>booking_items\<close>) as lists
  of rows. Identifiers are \<^verbatim>\<open>TEXT\<close> columns, the seat counters \<^verbatim>\<open>INTEGER\<close> columns
  (modelled as unbounded integers, so that a counter below zero stays visible), time
  stamps are natural numbers. The columns \<^verbatim>\<open>date\<close>, \<^verbatim>\<open>venue\<close> and \<^verbatim>\<open>created_at\<close> of an
  event are never read or written by the booking service and are left out. The line items
  of a booking are kept with the booking, in the order of insertion.
\<close>

datatype BookingStatus = CONFIRMED | CANCELLED

record Event =
  ev_id :: string
  ev_name :: string
  totalSeats :: int
  availableSeats :: int
  ev_updatedAt :: nat

record BookingItem =
  bi_eventId :: string
  bi_quantity :: int

record Booking =
  bk_id :: string
  bk_customerEmail :: string
  bk_status :: BookingStatus
  bk_createdAt :: nat
  bk_idempotencyKey :: "string option"
  bk_items :: "BookingItem list"

record store =
  events :: "Event list"
  bookings :: "Booking list"

text \<open>What the store supplies to one unit of work: the identifier drawn for a new
  booking and the time of the transaction (\<^verbatim>\<open>NOW()\<close>, \<^verbatim>\<open>CURRENT_TIMESTAMP\<close>).\<close>

record env =
  newId :: string
  now :: nat

section \<open>Inputs, results and errors of the booking service\<close>

record BookingItemInput =
  eventId :: string
  quantity :: int

record CreateBookingInput =
  customerEmail :: string
  items :: "BookingItemInput list"

record ResultItem =
  ri_eventId :: string
  ri_eventName :: string
  ri_quantity :: int

record BookingResult =
  br_id :: string
  br_customerEmail :: string
  br_status :: BookingStatus
  br_createdAt :: nat
  br_items :: "ResultItem list"
  br_totalTickets :: int

text \<open>The four error classes of the service, and the failures of the store and of the
  runtime that its calls can raise: a violated unique index or primary key, a violated
  foreign key, a required relation that has no row, and a property read on
  \<^verbatim>\<open>undefined\<close>.\<close>

datatype error =
    EventNotFoundError string
  | InsufficientSeatsError string int int
  | BookingNotFoundError string
  | BookingAlreadyCancelledError string
  | UniqueConstraintViolation
  | ForeignKeyViolation
  | InconsistentQueryResult
  | TypeError

record EventDetail =
  ed_id :: string
  ed_name :: string
  ed_availableSeats :: int
  ed_requestedQuantity :: int

section \<open>Store primitives\<close>

text \<open>\<^verbatim>\<open>SELECT id, name, available_seats FROM events WHERE id = ... FOR UPDATE\<close>: the rows
  with that identifier.\<close>

definition select_for_update :: "Event list \<Rightarrow> string \<Rightarrow> Event list" where
  "select_for_update evs eid = filter (\<lambda>e. ev_id e = eid) evs"

text \<open>\<^verbatim>\<open>UPDATE events SET available_seats = available_seats - q, updated_at = NOW()
  WHERE id = ...\<close>, and the same with \<^verbatim>\<open>+\<close>.\<close>

definition decrement_seats :: "Event list \<Rightarrow> string \<Rightarrow> int \<Rightarrow> nat \<Rightarrow> Event list" where
  "decrement_seats evs eid q t =
     map (\<lambda>e. if ev_id e = eid
              then e\<lparr>availableSeats := availableSeats e - q, ev_updatedAt := t\<rparr>
              else e) evs"

definition restore_seats :: "Event list \<Rightarrow> string \<Rightarrow> int \<Rightarrow> nat \<Rightarrow> Event list" where
  "restore_seats evs eid q t =
     map (\<lambda>e. if ev_id e = eid
              then e\<lparr>availableSeats := availableSeats e + q, ev_updatedAt := t\<rparr>
              else e) evs"

text \<open>\<^verbatim>\<open>booking.findUnique\<close> by identifier and by idempotency key.\<close>

definition find_by_id :: "Booking list \<Rightarrow> string \<Rightarrow> Booking option" where
  "find_by_id bks bid = find (\<lambda>b. bk_id b = bid) bks"

definition find_by_key :: "Booking list \<Rightarrow> string \<Rightarrow> Booking option" where
  "find_by_key bks k = find (\<lambda>b. bk_idempotencyKey b = Some k) bks"

text \<open>\<^verbatim>\<open>include: { items: { include: { event: true } } }\<close>: every line item with the
  event row it references. The relation is required, so a line item without its event
  is a failure of the query.\<close>

fun include_event :: "Event list \<Rightarrow> BookingItem list \<Rightarrow> error + (BookingItem \<times> Event) list" where
  "include_event evs [] = Inr []"
| "include_event evs (it # its) =
     (case select_for_update evs (bi_eventId it) of
        [] \<Rightarrow> Inl InconsistentQueryResult
      | e # _ \<Rightarrow>
          (case include_event evs its of
             Inl err \<Rightarrow> Inl err
           | Inr joined \<Rightarrow> Inr ((it, e) # joined)))"

text \<open>\<^verbatim>\<open>booking.create\<close> with its nested line items, under the constraints of the
  migrations: the primary key of \<^verbatim>\<open>bookings\<close>, the unique index on
  \<^verbatim>\<open>idempotency_key\<close>, the unique index on \<^verbatim>\<open>(booking_id, event_id)\<close> and the foreign
  key from a line item to its event.\<close>

definition booking_create :: "Event list \<Rightarrow> Booking list \<Rightarrow> Booking \<Rightarrow> error + Booking list" where
  "booking_create evs bks b =
     (if bk_id b \<in> set (map bk_id bks) then Inl UniqueConstraintViolation
      else if (case bk_idempotencyKey b of
                 None \<Rightarrow> False
               | Some k \<Rightarrow> Some k \<in> set (map bk_idempotencyKey bks))
        then Inl UniqueConstraintViolation
      else if \<not> distinct (map bi_eventId (bk_items b)) then Inl UniqueConstraintViolation
      else if \<not> list_all (\<lambda>it. select_for_update evs (bi_eventId it) \<noteq> []) (bk_items b)
        then Inl ForeignKeyViolation
      else Inr (bks @ [b]))"

text \<open>\<^verbatim>\<open>booking.update({ where: { id }, data: { status: "CANCELLED" } })\<close>.\<close>

definition booking_cancel :: "Booking list \<Rightarrow> string \<Rightarrow> Booking list" where
  "booking_cancel bks bid =
     map (\<lambda>b. if bk_id b = bid then b\<lparr>bk_status := CANCELLED\<rparr> else b) bks"

text \<open>\<^verbatim>\<open>prisma.$transaction\<close>: the effects of a body that throws are discarded. The
  time limit of the transaction is not modelled.\<close>

definition transaction :: "(store \<Rightarrow> (error + 'a) \<times> store) \<Rightarrow> store \<Rightarrow> (error + 'a) \<times> store" where
  "transaction body s =
     (case body s of
        (Inl e, s') \<Rightarrow> (Inl e, s)
      | (Inr r, s') \<Rightarrow> (Inr r, s'))"

section \<open>The notification service\<close>

record NotificationItem =
  ni_eventName :: string
  ni_quantity :: int

record BookingNotification =
  bn_bookingId :: string
  bn_customerEmail :: string
  bn_items :: "NotificationItem list"
  bn_totalTickets :: int
  bn_createdAt :: nat

text \<open>A channel is its \<^verbatim>\<open>send\<close>: for a notification it either resolves or throws an
  error (\<open>Inl\<close>, with the error's text). The console channel resolves.\<close>

type_synonym NotificationChannel = "BookingNotification \<Rightarrow> string + unit"

definition ConsoleNotificationChannel :: NotificationChannel where
  "ConsoleNotificationChannel n = Inr ()"

text \<open>\<^verbatim>\<open>NotificationService.notify\<close>: the outcome of the call, and the lines it writes
  with \<^verbatim>\<open>console.error\<close>.\<close>

definition notify :: "NotificationChannel \<Rightarrow> BookingNotification \<Rightarrow> (string + unit) \<times> string list" where
  "notify channel notification =
     (case channel notification of
        Inr u \<Rightarrow> (Inr (), [])
      | Inl err \<Rightarrow> (Inr (), [''Notification failed (non-blocking): '' @ err]))"

section \<open>The booking service\<close>

text \<open>The object literal that \<^verbatim>\<open>createBooking\<close> (for a known idempotency key),
  \<^verbatim>\<open>cancelBooking\<close> and \<^verbatim>\<open>getBooking\<close> build from a booking read with its items and
  their events.\<close>

definition project :: "Booking \<Rightarrow> (BookingItem \<times> Event) list \<Rightarrow> BookingResult" where
  "project b joined =
     \<lparr>br_id = bk_id b,
      br_customerEmail = bk_customerEmail b,
      br_status = bk_status b,
      br_createdAt = bk_createdAt b,
      br_items = map (\<lambda>(it, e). \<lparr>ri_eventId = bi_eventId it, ri_eventName = ev_name e,
                                 ri_quantity = bi_quantity it\<rparr>) joined,
      br_totalTickets = foldl (\<lambda>sum (it, e). sum + bi_quantity it) 0 joined\<rparr>"

definition read_projection :: "Event list \<Rightarrow> Booking \<Rightarrow> error + BookingResult" where
  "read_projection evs b =
     (case include_event evs (bk_items b) of
        Inl err \<Rightarrow> Inl err
      | Inr joined \<Rightarrow> Inr (project b joined))"

text \<open>Phase 1 of \<^verbatim>\<open>createBooking\<close>: the loop over \<^verbatim>\<open>input.items\<close> that locks and
  validates, pushing onto \<^verbatim>\<open>eventDetails\<close>.\<close>

fun lock_and_validate ::
  "Event list \<Rightarrow> BookingItemInput list \<Rightarrow> EventDetail list \<Rightarrow> error + EventDetail list" where
  "lock_and_validate evs [] eventDetails = Inr eventDetails"
| "lock_and_validate evs (item # rest) eventDetails =
     (case select_for_update evs (eventId item) of
        [] \<Rightarrow> Inl (EventNotFoundError (eventId item))
      | event # _ \<Rightarrow>
          if availableSeats event < quantity item
          then Inl (InsufficientSeatsError (eventId item) (quantity item) (availableSeats event))
          else lock_and_validate evs rest
                 (eventDetails @ [\<lparr>ed_id = ev_id event, ed_name = ev_name event,
                                    ed_availableSeats = availableSeats event,
                                    ed_requestedQuantity = quantity item\<rparr>]))"

text \<open>Phase 2: the loop over \<^verbatim>\<open>eventDetails\<close> that decrements.\<close>

fun decrement_all :: "Event list \<Rightarrow> EventDetail list \<Rightarrow> nat \<Rightarrow> Event list" where
  "decrement_all evs [] t = evs"
| "decrement_all evs (detail # rest) t =
     decrement_all (decrement_seats evs (ed_id detail) (ed_requestedQuantity detail) t) rest t"

text \<open>The idempotency key as the service uses it: \<^verbatim>\<open>if (idempotencyKey)\<close> holds for a
  string that is present and not empty.\<close>

definition supplied :: "string option \<Rightarrow> string option" where
  "supplied idempotencyKey =
     (case idempotencyKey of
        None \<Rightarrow> None
      | Some k \<Rightarrow> if k = [] then None else Some k)"

text \<open>The idempotency check: \<^verbatim>\<open>if (idempotencyKey) { existing = findUnique(...) }\<close>.\<close>

definition existing_for :: "store \<Rightarrow> string option \<Rightarrow> Booking option" where
  "existing_for s idempotencyKey =
     (case supplied idempotencyKey of
        None \<Rightarrow> None
      | Some k \<Rightarrow> find_by_key (bookings s) k)"

text \<open>The callback of the transaction: phases 1 to 3. The store it returns with an
  error is the store at the moment of the throw.\<close>

definition createBooking_tx ::
  "CreateBookingInput \<Rightarrow> string option \<Rightarrow> env \<Rightarrow> store
     \<Rightarrow> (error + Booking \<times> EventDetail list) \<times> store" where
  "createBooking_tx input idempotencyKey en s =
     (case lock_and_validate (events s) (items input) [] of
        Inl err \<Rightarrow> (Inl err, s)
      | Inr eventDetails \<Rightarrow>
          (let s1 = s\<lparr>events := decrement_all (events s) eventDetails (now en)\<rparr>;
               booking = \<lparr>bk_id = newId en,
                          bk_customerEmail = customerEmail input,
                          bk_status = CONFIRMED,
                          bk_createdAt = now en,
                          bk_idempotencyKey = supplied idempotencyKey,
                          bk_items = map (\<lambda>item. \<lparr>bi_eventId = eventId item,
                                                    bi_quantity = quantity item\<rparr>) (items input)\<rparr>
           in case booking_create (events s1) (bookings s1) booking of
                Inl err \<Rightarrow> (Inl err, s1)
              | Inr bks \<Rightarrow> (Inr (booking, eventDetails), s1\<lparr>bookings := bks\<rparr>)))"

text \<open>\<^verbatim>\<open>result.eventDetails.map((detail, i) => ... result.booking.items[i].quantity)\<close>:
  the \<open>i\<close>-th detail with the \<open>i\<close>-th stored line item; reading past the end of
  \<^verbatim>\<open>items\<close> is a \<^verbatim>\<open>TypeError\<close>.\<close>

fun result_items :: "EventDetail list \<Rightarrow> BookingItem list \<Rightarrow> nat \<Rightarrow> error + ResultItem list" where
  "result_items [] bitems i = Inr []"
| "result_items (detail # rest) bitems i =
     (if i < length bitems
      then (case result_items rest bitems (Suc i) of
              Inl err \<Rightarrow> Inl err
            | Inr rs \<Rightarrow> Inr (\<lparr>ri_eventId = ed_id detail, ri_eventName = ed_name detail,
                              ri_quantity = bi_quantity (bitems ! i)\<rparr> # rs))
      else Inl TypeError)"

definition booking_result :: "Booking \<Rightarrow> EventDetail list \<Rightarrow> error + BookingResult" where
  "booking_result booking eventDetails =
     (case result_items eventDetails (bk_items booking) 0 of
        Inl err \<Rightarrow> Inl err
      | Inr ris \<Rightarrow>
          Inr \<lparr>br_id = bk_id booking,
               br_customerEmail = bk_customerEmail booking,
               br_status = bk_status booking,
               br_createdAt = bk_createdAt booking,
               br_items = ris,
               br_totalTickets = foldl (\<lambda>sum item. sum + bi_quantity item) 0 (bk_items booking)\<rparr>)"

definition notification_of :: "BookingResult \<Rightarrow> BookingNotification" where
  "notification_of bookingResult =
     \<lparr>bn_bookingId = br_id bookingResult,
      bn_customerEmail = br_customerEmail bookingResult,
      bn_items = map (\<lambda>i. \<lparr>ni_eventName = ri_eventName i, ni_quantity = ri_quantity i\<rparr>)
                   (br_items bookingResult),
      bn_totalTickets = br_totalTickets bookingResult,
      bn_createdAt = br_createdAt bookingResult\<rparr>"

text \<open>\<^verbatim>\<open>BookingService.createBooking\<close>. It returns the result or the error, the store
  after the call, and the lines the notification wrote to the error console. The
  notification is not awaited and its promise has an empty \<^verbatim>\<open>catch\<close>: its outcome is
  dropped.\<close>

definition createBooking ::
  "NotificationChannel \<Rightarrow> store \<Rightarrow> CreateBookingInput \<Rightarrow> string option \<Rightarrow> env
     \<Rightarrow> (error + BookingResult) \<times> store \<times> string list" where
  "createBooking channel s input idempotencyKey en =
     (case existing_for s idempotencyKey of
        Some existing \<Rightarrow> (read_projection (events s) existing, s, [])
      | None \<Rightarrow>
          (case transaction (createBooking_tx input idempotencyKey en) s of
             (Inl err, s') \<Rightarrow> (Inl err, s', [])
           | (Inr (booking, eventDetails), s') \<Rightarrow>
               (case booking_result booking eventDetails of
                  Inl err \<Rightarrow> (Inl err, s', [])
                | Inr bookingResult \<Rightarrow>
                    (Inr bookingResult, s',
                     snd (notify channel (notification_of bookingResult))))))"

text \<open>The loop of \<^verbatim>\<open>cancelBooking\<close> over \<^verbatim>\<open>booking.items\<close> that restores the seats.\<close>

fun restore_all :: "Event list \<Rightarrow> BookingItem list \<Rightarrow> nat \<Rightarrow> Event list" where
  "restore_all evs [] t = evs"
| "restore_all evs (item # rest) t =
     restore_all (restore_seats evs (bi_eventId item) (bi_quantity item) t) rest t"

definition cancelBooking_tx :: "string \<Rightarrow> nat \<Rightarrow> store \<Rightarrow> (error + BookingResult) \<times> store" where
  "cancelBooking_tx bookingId t s =
     (case find_by_id (bookings s) bookingId of
        None \<Rightarrow> (Inl (BookingNotFoundError bookingId), s)
      | Some booking \<Rightarrow>
          (case include_event (events s) (bk_items booking) of
             Inl err \<Rightarrow> (Inl err, s)
           | Inr joined \<Rightarrow>
               if bk_status booking = CANCELLED
               then (Inl (BookingAlreadyCancelledError bookingId), s)
               else (let s1 = s\<lparr>events := restore_all (events s) (bk_items booking) t\<rparr>;
                         s2 = s1\<lparr>bookings := booking_cancel (bookings s1) bookingId\<rparr>;
                         updated = booking\<lparr>bk_status := CANCELLED\<rparr>
                     in (read_projection (events s2) updated, s2))))"

text \<open>\<^verbatim>\<open>BookingService.cancelBooking\<close>.\<close>

definition cancelBooking :: "store \<Rightarrow> string \<Rightarrow> nat \<Rightarrow> (error + BookingResult) \<times> store" where
  "cancelBooking s bookingId t = transaction (cancelBooking_tx bookingId t) s"

section \<open>The request schema and the route\<close>

text \<open>A request body of the shape the schema describes; a quantity is a JSON number.
  The tests of \<^verbatim>\<open>z.string().email\<close> and \<^verbatim>\<open>z.string().uuid\<close> belong to the validation
  library and are parameters.\<close>

record RawItem =
  raw_eventId :: string
  raw_quantity :: real

record RawBody =
  raw_customerEmail :: string
  raw_items :: "RawItem list"

definition BookingItemSchema :: "(string \<Rightarrow> bool) \<Rightarrow> RawItem \<Rightarrow> bool" where
  "BookingItemSchema uuid item =
     (uuid (raw_eventId item)
      \<and> of_int \<lfloor>raw_quantity item\<rfloor> = raw_quantity item
      \<and> 1 \<le> raw_quantity item
      \<and> raw_quantity item \<le> 3)"

definition CreateBookingSchema :: "(string \<Rightarrow> bool) \<Rightarrow> (string \<Rightarrow> bool) \<Rightarrow> RawBody \<Rightarrow> bool" where
  "CreateBookingSchema email uuid body =
     (email (raw_customerEmail body)
      \<and> list_all (BookingItemSchema uuid) (raw_items body)
      \<and> 1 \<le> length (raw_items body)
      \<and> length (raw_items body) \<le> 20
      \<and> (let eventIds = map raw_eventId (raw_items body)
         in card (set eventIds) = length eventIds))"

definition safeParse ::
  "(string \<Rightarrow> bool) \<Rightarrow> (string \<Rightarrow> bool) \<Rightarrow> RawBody \<Rightarrow> CreateBookingInput option" where
  "safeParse email uuid body =
     (if CreateBookingSchema email uuid body
      then Some \<lparr>customerEmail = raw_customerEmail body,
                 items = map (\<lambda>item. \<lparr>eventId = raw_eventId item,
                                         quantity = \<lfloor>raw_quantity item\<rfloor>\<rparr>) (raw_items body)\<rparr>
      else None)"

datatype reply_body =
    Data BookingResult
  | ValidationError
  | EventNotFound string
  | InsufficientSeats string int int
  | InternalError

text \<open>\<^verbatim>\<open>POST /bookings\<close>: the status code and body of the reply, the store and the
  error console after the request. The service of the route has the console channel.
  The older copy of the route passes no idempotency key and is otherwise the same.\<close>

definition post_bookings ::
  "(string \<Rightarrow> bool) \<Rightarrow> (string \<Rightarrow> bool) \<Rightarrow> store \<Rightarrow> RawBody \<Rightarrow> string option \<Rightarrow> env
     \<Rightarrow> (nat \<times> reply_body) \<times> store \<times> string list" where
  "post_bookings email uuid s body header en =
     (case safeParse email uuid body of
        None \<Rightarrow> ((400, ValidationError), s, [])
      | Some parsed \<Rightarrow>
          (let idempotencyKey = (case header of
                                   None \<Rightarrow> None
                                 | Some h \<Rightarrow> if h = [] then None else Some h)
           in case createBooking ConsoleNotificationChannel s parsed idempotencyKey en of
                (Inr booking, s', out) \<Rightarrow> ((201, Data booking), s', out)
              | (Inl (EventNotFoundError eid), s', out) \<Rightarrow> ((404, EventNotFound eid), s', out)
              | (Inl (InsufficientSeatsError eid requested available), s', out) \<Rightarrow>
                  ((409, InsufficientSeats eid requested available), s', out)
              | (Inl _, s', out) \<Rightarrow> ((500, InternalError), s', out)))"

section \<open>Properties of a store, of a request and of a run\<close>

text \<open>The core invariant of the seat ledger.\<close>

definition seats_inv :: "store \<Rightarrow> bool" where
  "seats_inv s = list_all (\<lambda>e. 0 \<le> availableSeats e \<and> availableSeats e \<le> totalSeats e) (events s)"

text \<open>Two constraints of the migrations: the primary key of \<^verbatim>\<open>events\<close>, and the foreign
  key from every line item to its event.\<close>

definition events_pk :: "store \<Rightarrow> bool" where
  "events_pk s = distinct (map ev_id (events s))"

definition fk_ok :: "store \<Rightarrow> bool" where
  "fk_ok s =
     list_all (\<lambda>b. list_all (\<lambda>it. select_for_update (events s) (bi_eventId it) \<noteq> []) (bk_items b))
       (bookings s)"

text \<open>The preconditions the schema establishes for the engine: every quantity in
  \<open>[1, 3]\<close>, no event listed twice.\<close>

definition schema_pre :: "CreateBookingInput \<Rightarrow> bool" where
  "schema_pre input =
     (list_all (\<lambda>item. 1 \<le> quantity item \<and> quantity item \<le> 3) (items input)
      \<and> distinct (map eventId (items input)))"

text \<open>A run: a sequence of calls of the service, each from the store the previous one
  left; \<open>states\<close> lists the store before the first call and after each call.\<close>

datatype request =
    CreateBooking CreateBookingInput "string option" env
  | CancelBooking string nat

fun step :: "NotificationChannel \<Rightarrow> store \<Rightarrow> request \<Rightarrow> store" where
  "step channel s (CreateBooking input idempotencyKey en) =
     fst (snd (createBooking channel s input idempotencyKey en))"
| "step channel s (CancelBooking bookingId t) = snd (cancelBooking s bookingId t)"

fun states :: "NotificationChannel \<Rightarrow> store \<Rightarrow> request list \<Rightarrow> store list" where
  "states channel s [] = [s]"
| "states channel s (r # rs) = s # states channel (step channel s r) rs"

text \<open>What the calls of a run return, in order.\<close>

fun outcomes :: "NotificationChannel \<Rightarrow> store \<Rightarrow> request list \<Rightarrow> (error + BookingResult) list" where
  "outcomes channel s [] = []"
| "outcomes channel s (CreateBooking input idempotencyKey en # rs) =
     fst (createBooking channel s input idempotencyKey en)
       # outcomes channel (step channel s (CreateBooking input idempotencyKey en)) rs"
| "outcomes channel s (CancelBooking bookingId t # rs) =
     fst (cancelBooking s bookingId t)
       # outcomes channel (step channel s (CancelBooking bookingId t)) rs"

text \<open>The identifiers of the bookings a call has added to the store.\<close>

definition new_ids :: "store \<Rightarrow> store \<Rightarrow> string list" where
  "new_ids s s' = filter (\<lambda>i. i \<notin> set (map bk_id (bookings s))) (map bk_id (bookings s'))"

text \<open>A run is admissible from the recorded bookings \<open>R\<close> when every create request
  meets the preconditions of the schema and every cancel request names a booking in
  \<open>R\<close> or one that an earlier request of the run has created: a booking whose
  decrement is recorded in the ledger.\<close>

fun admissible :: "NotificationChannel \<Rightarrow> string list \<Rightarrow> store \<Rightarrow> request list \<Rightarrow> bool" where
  "admissible channel R s [] = True"
| "admissible channel R s (CreateBooking input idempotencyKey en # rs) =
     (schema_pre input
      \<and> admissible channel
            (R @ new_ids s (step channel s (CreateBooking input idempotencyKey en)))
            (step channel s (CreateBooking input idempotencyKey en)) rs)"
| "admissible channel R s (CancelBooking bookingId t # rs) =
     (bookingId \<in> set R
      \<and> admissible channel R (step channel s (CancelBooking bookingId t)) rs)"

text \<open>The seats that a list of (event, quantity) pairs asks of an event, and the seats
  that the confirmed bookings among \<open>R\<close> hold of it.\<close>

definition seats_for :: "(string \<times> int) list \<Rightarrow> string \<Rightarrow> int" where
  "seats_for ps eid = sum_list (map snd (filter (\<lambda>p. fst p = eid) ps))"

definition item_sum :: "BookingItem list \<Rightarrow> string \<Rightarrow> int" where
  "item_sum its eid = seats_for (map (\<lambda>it. (bi_eventId it, bi_quantity it)) its) eid"

definition reserved :: "string list \<Rightarrow> Booking list \<Rightarrow> string \<Rightarrow> int" where
  "reserved R bks eid =
     sum_list (map (\<lambda>b. item_sum (bk_items b) eid)
                 (filter (\<lambda>b. bk_id b \<in> set R \<and> bk_status b = CONFIRMED) bks))"

text \<open>The decrements of the bookings \<open>R\<close> are recorded in the ledger of a store: every
  booking of \<open>R\<close> is stored at most once and has no negative quantity, and for every
  event the seats available and the seats that the confirmed bookings of \<open>R\<close> hold do
  not exceed the total. For the empty \<open>R\<close> this is the upper bound of the seat
  invariant.\<close>

definition recorded :: "string list \<Rightarrow> store \<Rightarrow> bool" where
  "recorded R s =
     (distinct (filter (\<lambda>i. i \<in> set R) (map bk_id (bookings s)))
      \<and> list_all (\<lambda>b. bk_id b \<notin> set R \<or> list_all (\<lambda>it. 0 \<le> bi_quantity it) (bk_items b))
            (bookings s)
      \<and> list_all (\<lambda>e. availableSeats e + reserved R (bookings s) (ev_id e) \<le> totalSeats e)
            (events s))"

definition ledger_inv :: "string list \<Rightarrow> store \<Rightarrow> bool" where
  "ledger_inv R s = (events_pk s \<and> seats_inv s \<and> recorded R s)"

text \<open>The first item of a request that fails its check in phase 1.\<close>

definition offending :: "Event list \<Rightarrow> BookingItemInput \<Rightarrow> bool" where
  "offending evs item =
     (case select_for_update evs (eventId item) of
        [] \<Rightarrow> True
      | event # _ \<Rightarrow> availableSeats event < quantity item)"

definition first_offending :: "Event list \<Rightarrow> BookingItemInput list \<Rightarrow> BookingItemInput option" where
  "first_offending evs its = find (offending evs) its"

text \<open>Acceptance of a request body in the words of the interface: a valid email, between
  one and twenty items, every quantity one of 1, 2, 3, every event identifier a UUID,
  and no event identifier listed twice.\<close>

definition accepts :: "(string \<Rightarrow> bool) \<Rightarrow> (string \<Rightarrow> bool) \<Rightarrow> RawBody \<Rightarrow> bool" where
  "accepts email uuid body =
     (email (raw_customerEmail body)
      \<and> raw_items body \<noteq> []
      \<and> length (raw_items body) \<le> 20
      \<and> list_all (\<lambda>item. raw_quantity item \<in> {1, 2, 3} \<and> uuid (raw_eventId item)) (raw_items body)
      \<and> distinct (map raw_eventId (raw_items body)))"

section \<open>The seeded events\<close>

text \<open>Two events of \<^verbatim>\<open>prisma/seed.ts\<close>, and the store they make.\<close>

definition jazz :: Event where
  "jazz = \<lparr>ev_id = ''e-jazz'', ev_name = ''Jazz Night'', totalSeats = 50, availableSeats = 50,
           ev_updatedAt = 0\<rparr>"

definition concert :: Event where
  "concert = \<lparr>ev_id = ''e-concert'', ev_name = ''Classical Concert'', totalSeats = 2,
              availableSeats = 2, ev_updatedAt = 0\<rparr>"

definition seeded :: store where
  "seeded = \<lparr>events = [jazz, concert], bookings = []\<rparr>"

definition order :: "(string \<times> int) list \<Rightarrow> CreateBookingInput" where
  "order its =
     \<lparr>customerEmail = ''test@example.com'',
      items = map (\<lambda>(eid, q). \<lparr>eventId = eid, quantity = q\<rparr>) its\<rparr>"

text \<open>The store after one seat of the jazz night has been booked under the idempotency
  key \<open>k1\<close>.\<close>

definition booked :: store where
  "booked =
     \<lparr>events = [jazz\<lparr>availableSeats := 49, ev_updatedAt := 7\<rparr>, concert],
      bookings = [\<lparr>bk_id = ''b1'', bk_customerEmail = ''test@example.com'',
                   bk_status = CONFIRMED, bk_createdAt = 7, bk_idempotencyKey = Some ''k1'',
                   bk_items = [\<lparr>bi_eventId = ''e-jazz'', bi_quantity = 1\<rparr>]\<rparr>]\<rparr>"

section \<open>Basic facts about the store primitives and the transaction\<close>

lemma include_event_error: "include_event evs its = Inl err \<Longrightarrow> err = InconsistentQueryResult"
  by (induction its arbitrary: err) (auto split: list.splits sum.splits)

lemma read_projection_error: "read_projection evs b = Inl err \<Longrightarrow> err = InconsistentQueryResult"
  by (auto simp: read_projection_def split: sum.splits dest: include_event_error)

lemma result_items_error: "result_items ds bitems i = Inl err \<Longrightarrow> err = TypeError"
  by (induction ds bitems i rule: result_items.induct) (auto split: if_splits sum.splits)

lemma booking_result_error: "booking_result b ds = Inl err \<Longrightarrow> err = TypeError"
  by (auto simp: booking_result_def split: sum.splits dest: result_items_error)

lemma booking_create_error:
  "booking_create evs bks b = Inl err \<Longrightarrow> err = UniqueConstraintViolation \<or> err = ForeignKeyViolation"
  by (auto simp: booking_create_def split: if_splits)

lemma transaction_error: "fst (transaction body s) = Inl err \<Longrightarrow> snd (transaction body s) = s"
  by (auto simp: transaction_def split: prod.splits sum.splits)

lemma transaction_fst: "fst (transaction body s) = fst (body s)"
  by (auto simp: transaction_def split: prod.splits sum.splits)

lemma transaction_Inr: "transaction body s = (Inr r, s') \<longleftrightarrow> body s = (Inr r, s')"
  by (auto simp: transaction_def split: prod.splits sum.splits)

lemma transaction_Inl: "transaction body s = (Inl e, s') \<longleftrightarrow> fst (body s) = Inl e \<and> s' = s"
  by (auto simp: transaction_def split: prod.splits sum.splits)

lemma createBooking_tx_domain_error:
  assumes "fst (createBooking_tx input key en s) = Inl err"
    and "err = EventNotFoundError x \<or> err = InsufficientSeatsError x r a"
  shows "lock_and_validate (events s) (items input) [] = Inl err
         \<and> snd (createBooking_tx input key en s) = s"
  using assms
  by (auto simp: createBooking_tx_def Let_def split: sum.splits dest: booking_create_error)


lemma lock_and_validate_Inr:
  "lock_and_validate evs its acc = Inr ds \<Longrightarrow>
   \<exists>new. ds = acc @ new \<and>
     list_all2 (\<lambda>item d. \<exists>e rest. select_for_update evs (eventId item) = e # rest
                  \<and> quantity item \<le> availableSeats e
                  \<and> d = \<lparr>ed_id = ev_id e, ed_name = ev_name e,
                         ed_availableSeats = availableSeats e,
                         ed_requestedQuantity = quantity item\<rparr>) its new"
proof (induction its arbitrary: acc)
  case Nil
  then show ?case by simp
next
  case (Cons item rest)
  then obtain e tl where sel: "select_for_update evs (eventId item) = e # tl"
    by (cases "select_for_update evs (eventId item)") auto
  with Cons.prems have ok: "quantity item \<le> availableSeats e"
    and rec: "lock_and_validate evs rest
        (acc @ [\<lparr>ed_id = ev_id e, ed_name = ev_name e, ed_availableSeats = availableSeats e,
                  ed_requestedQuantity = quantity item\<rparr>]) = Inr ds"
    by (auto split: if_splits)
  from Cons.IH [OF rec] obtain new where
    "ds = (acc @ [\<lparr>ed_id = ev_id e, ed_name = ev_name e, ed_availableSeats = availableSeats e,
                  ed_requestedQuantity = quantity item\<rparr>]) @ new"
    and "list_all2 (\<lambda>item d. \<exists>e rest. select_for_update evs (eventId item) = e # rest
                  \<and> quantity item \<le> availableSeats e
                  \<and> d = \<lparr>ed_id = ev_id e, ed_name = ev_name e,
                         ed_availableSeats = availableSeats e,
                         ed_requestedQuantity = quantity item\<rparr>) rest new"
    by blast
  with sel ok show ?case
    by (intro exI [of _ "\<lparr>ed_id = ev_id e, ed_name = ev_name e, ed_availableSeats = availableSeats e,
                  ed_requestedQuantity = quantity item\<rparr> # new"]) simp
qed

lemma lock_and_validate_offending:
  "find (offending evs) its = Some item \<Longrightarrow>
   lock_and_validate evs its acc =
     (case select_for_update evs (eventId item) of
        [] \<Rightarrow> Inl (EventNotFoundError (eventId item))
      | e # _ \<Rightarrow> Inl (InsufficientSeatsError (eventId item) (quantity item) (availableSeats e)))"
  by (induction its arbitrary: acc) (auto simp: offending_def split: list.splits if_splits)

lemma lock_and_validate_none:
  "find (offending evs) its = None \<Longrightarrow> \<exists>ds. lock_and_validate evs its acc = Inr ds"
  by (induction its arbitrary: acc) (auto simp: offending_def split: list.splits if_splits)

lemma result_items_ok:
  "i + length ds \<le> length bitems \<Longrightarrow> \<exists>rs. result_items ds bitems i = Inr rs"
  by (induction ds bitems i rule: result_items.induct) (auto split: sum.splits)

lemma booking_create_Inr:
  "booking_create evs bks b = Inr bks' \<Longrightarrow>
   bks' = bks @ [b] \<and> bk_id b \<notin> set (map bk_id bks)
   \<and> distinct (map bi_eventId (bk_items b))
   \<and> list_all (\<lambda>it. select_for_update evs (bi_eventId it) \<noteq> []) (bk_items b)"
  by (simp add: booking_create_def split: if_splits)

lemma createBooking_tx_Inr:
  assumes "createBooking_tx input key en s = (Inr (booking, ds), s')"
  shows "lock_and_validate (events s) (items input) [] = Inr ds"
    and "booking = \<lparr>bk_id = newId en, bk_customerEmail = customerEmail input,
                    bk_status = CONFIRMED, bk_createdAt = now en,
                    bk_idempotencyKey = supplied key,
                    bk_items = map (\<lambda>item. \<lparr>bi_eventId = eventId item,
                                             bi_quantity = quantity item\<rparr>) (items input)\<rparr>"
    and "s' = \<lparr>events = decrement_all (events s) ds (now en), bookings = bookings s @ [booking]\<rparr>"
    and "newId en \<notin> set (map bk_id (bookings s))"
    and "distinct (map eventId (items input))"
  using assms
  by (auto simp: createBooking_tx_def Let_def comp_def split: sum.splits dest!: booking_create_Inr)

lemma createBooking_tx_result_ok:
  assumes "createBooking_tx input key en s = (Inr (booking, ds), s')"
  shows "\<exists>r. booking_result booking ds = Inr r"
proof -
  from lock_and_validate_Inr [OF createBooking_tx_Inr(1) [OF assms]]
  have "length ds = length (items input)" by (auto dest: list_all2_lengthD)
  moreover have "length (bk_items booking) = length (items input)"
    using createBooking_tx_Inr(2) [OF assms] by simp
  ultimately obtain rs where "result_items ds (bk_items booking) 0 = Inr rs"
    using result_items_ok [of 0 ds "bk_items booking"] by auto
  then show ?thesis by (simp add: booking_result_def)
qed

lemma createBooking_error_store:
  "fst (createBooking channel s input key en) = Inl err \<Longrightarrow>
   snd (createBooking channel s input key en) = (s, [])"
  by (auto simp: createBooking_def transaction_Inl transaction_Inr
      split: option.splits prod.splits sum.splits dest: createBooking_tx_result_ok)

lemma createBooking_domain_error_tx:
  assumes "fst (createBooking channel s input key en) = Inl err"
    and "err = EventNotFoundError x \<or> err = InsufficientSeatsError x r a"
  shows "existing_for s key = None \<and> fst (createBooking_tx input key en s) = Inl err"
  using assms
  by (auto simp: createBooking_def transaction_Inl transaction_Inr
      split: option.splits prod.splits sum.splits
      dest: read_projection_error booking_result_error)

section \<open>Failure of a reservation changes nothing\<close>

text \<open>C2: whenever \<^verbatim>\<open>createBooking\<close> fails with \<open>EventNotFoundError\<close> or
  \<open>InsufficientSeatsError\<close>, the store after the call is the store before it (every
  event row with its \<open>availableSeats\<close>, every booking with its line items: nothing
  is created), and no notification is sent. The body of the transaction itself has not
  written anything when it throws: the store at the throw is the store at the start,
  so the events validated earlier in the request are untouched.\<close>

theorem reserve_failure_atomic:
  assumes "fst (createBooking channel s input key en) = Inl (EventNotFoundError x)
         \<or> fst (createBooking channel s input key en) = Inl (InsufficientSeatsError x r a)"
  shows "snd (createBooking channel s input key en) = (s, [])
       \<and> snd (createBooking_tx input key en s) = s"
proof -
  obtain err where e: "fst (createBooking channel s input key en) = Inl err"
    and d: "err = EventNotFoundError x \<or> err = InsufficientSeatsError x r a"
    using assms by blast
  from createBooking_domain_error_tx [OF e d]
  have "fst (createBooking_tx input key en s) = Inl err" by simp
  from createBooking_tx_domain_error [OF this d]
  have "snd (createBooking_tx input key en s) = s" by simp
  with createBooking_error_store [OF e] show ?thesis by simp
qed

text \<open>The request of the scenario: one seat of an event with enough seats, then five
  seats of the concert, which has two.\<close>

theorem reserve_failure_atomic_witness:
  "(fst (createBooking ConsoleNotificationChannel seeded
           (order [(''e-jazz'', 1), (''e-concert'', 5)]) None \<lparr>newId = ''b1'', now = 7\<rparr>)
      = Inl (EventNotFoundError ''e-concert'')
    \<or> fst (createBooking ConsoleNotificationChannel seeded
           (order [(''e-jazz'', 1), (''e-concert'', 5)]) None \<lparr>newId = ''b1'', now = 7\<rparr>)
      = Inl (InsufficientSeatsError ''e-concert'' 5 2))
   \<and> snd (createBooking ConsoleNotificationChannel seeded
           (order [(''e-jazz'', 1), (''e-concert'', 5)]) None \<lparr>newId = ''b1'', now = 7\<rparr>)
      = (seeded, [])
   \<and> snd (createBooking_tx (order [(''e-jazz'', 1), (''e-concert'', 5)]) None
           \<lparr>newId = ''b1'', now = 7\<rparr> seeded) = seeded"
proof -
  have h: "fst (createBooking ConsoleNotificationChannel seeded
           (order [(''e-jazz'', 1), (''e-concert'', 5)]) None \<lparr>newId = ''b1'', now = 7\<rparr>)
      = Inl (EventNotFoundError ''e-concert'')
    \<or> fst (createBooking ConsoleNotificationChannel seeded
           (order [(''e-jazz'', 1), (''e-concert'', 5)]) None \<lparr>newId = ''b1'', now = 7\<rparr>)
      = Inl (InsufficientSeatsError ''e-concert'' 5 2)"
    by (simp add: createBooking_def existing_for_def supplied_def transaction_def
        createBooking_tx_def seeded_def order_def jazz_def concert_def select_for_update_def)
  from reserve_failure_atomic [OF h] h show ?thesis by simp
qed

section \<open>Notification failures\<close>

text \<open>C9: for every channel, also one whose \<^verbatim>\<open>send\<close> always throws, \<^verbatim>\<open>notify\<close> returns
  normally; and the result that \<^verbatim>\<open>createBooking\<close> returns and the store it leaves are
  the same for every channel, so the notification neither changes the result nor undoes
  the committed booking.\<close>

theorem notification_swallowed:
  "fst (notify channel notification) = Inr ()
   \<and> fst (createBooking channel s input key en) = fst (createBooking channel' s input key en)
   \<and> fst (snd (createBooking channel s input key en))
       = fst (snd (createBooking channel' s input key en))"
  by (auto simp: notify_def createBooking_def split: sum.splits option.splits prod.splits)

section \<open>Cancellation: failures\<close>

lemma select_nonempty: "select_for_update evs x \<noteq> [] \<longleftrightarrow> x \<in> set (map ev_id evs)"
  by (auto simp: select_for_update_def filter_empty_conv)

lemma restore_seats_ids [simp]: "map ev_id (restore_seats evs eid q t) = map ev_id evs"
  by (induction evs) (auto simp: restore_seats_def)

lemma restore_all_ids [simp]: "map ev_id (restore_all evs its t) = map ev_id evs"
  by (induction its arbitrary: evs) auto

lemma decrement_seats_ids [simp]: "map ev_id (decrement_seats evs eid q t) = map ev_id evs"
  by (induction evs) (auto simp: decrement_seats_def)

lemma decrement_all_ids [simp]: "map ev_id (decrement_all evs ds t) = map ev_id evs"
  by (induction ds arbitrary: evs) auto

lemma include_event_ok:
  "(\<exists>joined. include_event evs its = Inr joined)
   \<longleftrightarrow> list_all (\<lambda>it. select_for_update evs (bi_eventId it) \<noteq> []) its"
  by (induction its) (auto split: list.splits sum.splits)

lemma include_event_ids:
  "map ev_id evs' = map ev_id evs \<Longrightarrow> include_event evs its = Inr joined \<Longrightarrow>
   \<exists>joined'. include_event evs' its = Inr joined'"
  using include_event_ok [of evs its] include_event_ok [of evs' its]
  by (simp add: select_nonempty)

lemma find_by_id_None: "find_by_id bks bid = None \<longleftrightarrow> bid \<notin> set (map bk_id bks)"
  by (auto simp: find_by_id_def find_None_iff)

lemma find_by_id_Some: "find_by_id bks bid = Some b \<Longrightarrow> b \<in> set bks \<and> bk_id b = bid"
  by (auto simp: find_by_id_def find_Some_iff)

lemma find_by_id_cancel:
  "find_by_id bks bid = Some b \<Longrightarrow>
   find_by_id (booking_cancel bks bid) bid = Some (b\<lparr>bk_status := CANCELLED\<rparr>)"
  by (induction bks) (auto simp: find_by_id_def booking_cancel_def)

lemma fk_ok_booking:
  "fk_ok s \<Longrightarrow> b \<in> set (bookings s) \<Longrightarrow> \<exists>joined. include_event (events s) (bk_items b) = Inr joined"
  by (auto simp: fk_ok_def list_all_iff include_event_ok)

lemma read_projection_status:
  "read_projection evs b = Inr r \<Longrightarrow> br_status r = bk_status b \<and> br_id r = bk_id b"
  by (auto simp: read_projection_def project_def split: sum.splits)

lemma cancelBooking_Inr:
  assumes "cancelBooking s bid t = (Inr r, s1)"
  shows "\<exists>b joined. find_by_id (bookings s) bid = Some b \<and> bk_status b = CONFIRMED
           \<and> include_event (events s) (bk_items b) = Inr joined
           \<and> s1 = \<lparr>events = restore_all (events s) (bk_items b) t,
                    bookings = booking_cancel (bookings s) bid\<rparr>
           \<and> read_projection (restore_all (events s) (bk_items b) t)
                 (b\<lparr>bk_status := CANCELLED\<rparr>) = Inr r"
proof -
  from assms obtain b where b: "find_by_id (bookings s) bid = Some b"
    by (auto simp: cancelBooking_def transaction_Inr cancelBooking_tx_def split: option.splits)
  with assms obtain joined where j: "include_event (events s) (bk_items b) = Inr joined"
    by (auto simp: cancelBooking_def transaction_Inr cancelBooking_tx_def split: sum.splits)
  from assms b j have st: "bk_status b \<noteq> CANCELLED"
    by (auto simp: cancelBooking_def transaction_Inr cancelBooking_tx_def split: if_splits)
  then have "bk_status b = CONFIRMED" by (cases "bk_status b") auto
  moreover from assms b j st
  have "s1 = \<lparr>events = restore_all (events s) (bk_items b) t,
               bookings = booking_cancel (bookings s) bid\<rparr>"
    and "read_projection (restore_all (events s) (bk_items b) t)
                 (b\<lparr>bk_status := CANCELLED\<rparr>) = Inr r"
    by (auto simp: cancelBooking_def transaction_Inr cancelBooking_tx_def Let_def)
  ultimately show ?thesis using b j by blast
qed

lemma cancelBooking_error_store:
  "fst (cancelBooking s bid t) = Inl err \<Longrightarrow> snd (cancelBooking s bid t) = s"
  by (simp add: cancelBooking_def transaction_error)

lemma cancelBooking_not_found:
  "fst (cancelBooking s bid t) = Inl (BookingNotFoundError x)
   \<longleftrightarrow> x = bid \<and> bid \<notin> set (map bk_id (bookings s))"
proof (cases "find_by_id (bookings s) bid")
  case None
  then show ?thesis
    using find_by_id_None [of "bookings s" bid]
    by (auto simp: cancelBooking_def transaction_fst cancelBooking_tx_def)
next
  case (Some b)
  then have "bid \<in> set (map bk_id (bookings s))"
    using find_by_id_None [of "bookings s" bid] by simp
  with Some show ?thesis
    by (auto simp: cancelBooking_def transaction_fst cancelBooking_tx_def Let_def
        split: sum.splits dest: include_event_error read_projection_error)
qed

lemma cancelBooking_already:
  assumes "fk_ok s"
  shows "fst (cancelBooking s bid t) = Inl (BookingAlreadyCancelledError x)
   \<longleftrightarrow> x = bid \<and> (\<exists>b. find_by_id (bookings s) bid = Some b \<and> bk_status b = CANCELLED)"
proof (cases "find_by_id (bookings s) bid")
  case None
  then show ?thesis
    by (simp add: cancelBooking_def transaction_fst cancelBooking_tx_def)
next
  case (Some b)
  with assms obtain joined where "include_event (events s) (bk_items b) = Inr joined"
    using fk_ok_booking find_by_id_Some by blast
  with Some show ?thesis
    by (auto simp: cancelBooking_def transaction_fst cancelBooking_tx_def Let_def
        dest: read_projection_error)
qed

lemma cancel_twice:
  assumes "cancelBooking s bid t = (Inr r, s1)"
  shows "cancelBooking s1 bid t' = (Inl (BookingAlreadyCancelledError bid), s1)"
proof -
  from cancelBooking_Inr [OF assms] obtain b joined where
    b: "find_by_id (bookings s) bid = Some b"
    and j: "include_event (events s) (bk_items b) = Inr joined"
    and s1: "s1 = \<lparr>events = restore_all (events s) (bk_items b) t,
                    bookings = booking_cancel (bookings s) bid\<rparr>"
    by blast
  from include_event_ids [OF _ j, of "restore_all (events s) (bk_items b) t"]
  obtain joined' where "include_event (events s1) (bk_items b) = Inr joined'"
    using s1 by auto
  with find_by_id_cancel [OF b] s1 show ?thesis
    by (simp add: cancelBooking_def transaction_def cancelBooking_tx_def)
qed

text \<open>C7: in a store whose line items reference existing events (the foreign key of the
  migrations), \<^verbatim>\<open>cancelBooking\<close> fails with \<open>BookingNotFoundError\<close> exactly when no
  booking has the identifier, and with \<open>BookingAlreadyCancelledError\<close> exactly when the
  booking found has the status \<open>CANCELLED\<close>; a call that fails leaves the store as it
  was; and after a successful cancel, a second cancel of the same booking fails with
  \<open>BookingAlreadyCancelledError\<close> and changes nothing.\<close>

theorem cancel_failures:
  assumes "fk_ok s"
  shows "(fst (cancelBooking s bookingId t) = Inl (BookingNotFoundError x)
            \<longleftrightarrow> x = bookingId \<and> bookingId \<notin> set (map bk_id (bookings s)))
       \<and> (fst (cancelBooking s bookingId t) = Inl (BookingAlreadyCancelledError x)
            \<longleftrightarrow> x = bookingId
                \<and> (\<exists>b. find_by_id (bookings s) bookingId = Some b \<and> bk_status b = CANCELLED))
       \<and> (\<forall>err. fst (cancelBooking s bookingId t) = Inl err
            \<longrightarrow> snd (cancelBooking s bookingId t) = s)
       \<and> (\<forall>r s1 t'. cancelBooking s bookingId t = (Inr r, s1)
            \<longrightarrow> cancelBooking s1 bookingId t' = (Inl (BookingAlreadyCancelledError bookingId), s1))"
  using cancelBooking_not_found [of s bookingId t x] cancelBooking_already [OF assms, of bookingId t x]
    cancelBooking_error_store [of s bookingId t] cancel_twice [of s bookingId t]
  by blast

theorem cancel_failures_witness:
  "fk_ok booked
   \<and> fst (cancelBooking booked ''b0'' 9) = Inl (BookingNotFoundError ''b0'')
   \<and> snd (cancelBooking booked ''b0'' 9) = booked
   \<and> fst (cancelBooking booked ''b1'' 9)
       = Inr \<lparr>br_id = ''b1'', br_customerEmail = ''test@example.com'', br_status = CANCELLED,
              br_createdAt = 7,
              br_items = [\<lparr>ri_eventId = ''e-jazz'', ri_eventName = ''Jazz Night'',
                           ri_quantity = 1\<rparr>],
              br_totalTickets = 1\<rparr>
   \<and> cancelBooking (snd (cancelBooking booked ''b1'' 9)) ''b1'' 10
       = (Inl (BookingAlreadyCancelledError ''b1''), snd (cancelBooking booked ''b1'' 9))"
proof -
  have fk: "fk_ok booked"
    by (simp add: fk_ok_def booked_def jazz_def concert_def select_for_update_def)
  have ok: "fst (cancelBooking booked ''b1'' 9)
       = Inr \<lparr>br_id = ''b1'', br_customerEmail = ''test@example.com'', br_status = CANCELLED,
              br_createdAt = 7,
              br_items = [\<lparr>ri_eventId = ''e-jazz'', ri_eventName = ''Jazz Night'',
                           ri_quantity = 1\<rparr>],
              br_totalTickets = 1\<rparr>"
    by (simp add: cancelBooking_def transaction_def cancelBooking_tx_def find_by_id_def
        booked_def jazz_def concert_def select_for_update_def restore_seats_def
        booking_cancel_def read_projection_def project_def)
  then have pair: "cancelBooking booked ''b1'' 9
       = (Inr \<lparr>br_id = ''b1'', br_customerEmail = ''test@example.com'', br_status = CANCELLED,
              br_createdAt = 7,
              br_items = [\<lparr>ri_eventId = ''e-jazz'', ri_eventName = ''Jazz Night'',
                           ri_quantity = 1\<rparr>],
              br_totalTickets = 1\<rparr>, snd (cancelBooking booked ''b1'' 9))"
    by (cases "cancelBooking booked ''b1'' 9") simp
  from cancel_failures [OF fk, of "''b0''" 9 "''b0''"]
  have nf: "fst (cancelBooking booked ''b0'' 9) = Inl (BookingNotFoundError ''b0'')"
    and same: "snd (cancelBooking booked ''b0'' 9) = booked"
    by (simp_all add: booked_def)
  from cancel_failures [OF fk, of "''b1''" 9 "''b1''"] pair
  have twice: "cancelBooking (snd (cancelBooking booked ''b1'' 9)) ''b1'' 10
       = (Inl (BookingAlreadyCancelledError ''b1''), snd (cancelBooking booked ''b1'' 9))"
    by blast
  from fk nf same ok twice show ?thesis by (intro conjI)
qed

section \<open>The request schema\<close>

lemma quantity_range:
  "(of_int \<lfloor>q::real\<rfloor> = q \<and> 1 \<le> q \<and> q \<le> 3) \<longleftrightarrow> q \<in> {1, 2, 3}"
proof
  assume a: "of_int \<lfloor>q\<rfloor> = q \<and> 1 \<le> q \<and> q \<le> 3"
  define k where "k = \<lfloor>q\<rfloor>"
  from a have "of_int \<lfloor>q\<rfloor> = q" by (rule conjunct1)
  then have q: "q = of_int k" unfolding k_def by (rule sym)
  from a have "1 \<le> real_of_int k" "real_of_int k \<le> 3" unfolding q by simp_all
  then have "1 \<le> k" "k \<le> 3" by linarith+
  then have "k = 1 \<or> k = 2 \<or> k = 3" by arith
  with q show "q \<in> {1, 2, 3}" by auto
next
  assume "q \<in> {1, 2, 3}"
  then show "of_int \<lfloor>q\<rfloor> = q \<and> 1 \<le> q \<and> q \<le> 3" by auto
qed

lemma set_size_distinct: "card (set xs) = length xs \<longleftrightarrow> distinct xs"
  using card_distinct distinct_card by blast

lemma schema_accepts: "CreateBookingSchema email uuid body \<longleftrightarrow> accepts email uuid body"
proof -
  have "list_all (BookingItemSchema uuid) (raw_items body)
      \<longleftrightarrow> list_all (\<lambda>item. raw_quantity item \<in> {1, 2, 3} \<and> uuid (raw_eventId item)) (raw_items body)"
    unfolding list_all_iff BookingItemSchema_def using quantity_range by blast
  moreover have "1 \<le> length (raw_items body) \<longleftrightarrow> raw_items body \<noteq> []"
    by (cases "raw_items body") auto
  ultimately show ?thesis
    unfolding CreateBookingSchema_def accepts_def Let_def set_size_distinct by blast
qed

text \<open>C8: the schema accepts a request body exactly when the email is valid, there are
  between one and twenty items, every quantity is one of 1, 2, 3, every event identifier
  is a UUID and no event identifier occurs twice; and the route answers a body that is
  not accepted with 400 without calling the service: the store is unchanged.\<close>

theorem schema_accepts_iff:
  "(CreateBookingSchema email uuid body \<longleftrightarrow> accepts email uuid body)
   \<and> (\<not> accepts email uuid body
        \<longrightarrow> post_bookings email uuid s body header en = ((400, ValidationError), s, []))"
  using schema_accepts [of email uuid body]
  by (simp add: post_bookings_def safeParse_def)

text \<open>A request that lists the same event twice, with stand-ins for the two tests of
  the validation library.\<close>

theorem schema_accepts_iff_witness:
  "\<not> accepts (\<lambda>s. CHR ''@'' \<in> set s) (\<lambda>s. length s = 6)
       \<lparr>raw_customerEmail = ''test@example.com'',
        raw_items = [\<lparr>raw_eventId = ''e-jazz'', raw_quantity = 1\<rparr>,
                     \<lparr>raw_eventId = ''e-jazz'', raw_quantity = 2\<rparr>]\<rparr>
   \<and> \<not> CreateBookingSchema (\<lambda>s. CHR ''@'' \<in> set s) (\<lambda>s. length s = 6)
       \<lparr>raw_customerEmail = ''test@example.com'',
        raw_items = [\<lparr>raw_eventId = ''e-jazz'', raw_quantity = 1\<rparr>,
                     \<lparr>raw_eventId = ''e-jazz'', raw_quantity = 2\<rparr>]\<rparr>
   \<and> post_bookings (\<lambda>s. CHR ''@'' \<in> set s) (\<lambda>s. length s = 6) seeded
       \<lparr>raw_customerEmail = ''test@example.com'',
        raw_items = [\<lparr>raw_eventId = ''e-jazz'', raw_quantity = 1\<rparr>,
                     \<lparr>raw_eventId = ''e-jazz'', raw_quantity = 2\<rparr>]\<rparr> None
       \<lparr>newId = ''b1'', now = 7\<rparr> = ((400, ValidationError), seeded, [])"
  using schema_accepts_iff [of "\<lambda>s. CHR ''@'' \<in> set s" "\<lambda>s. length s = 6"
       "\<lparr>raw_customerEmail = ''test@example.com'',
        raw_items = [\<lparr>raw_eventId = ''e-jazz'', raw_quantity = 1\<rparr>,
                     \<lparr>raw_eventId = ''e-jazz'', raw_quantity = 2\<rparr>]\<rparr>" seeded None
       "\<lparr>newId = ''b1'', now = 7\<rparr>"]
  by (simp add: accepts_def)

section \<open>Reservation: which failure, and for which item\<close>

lemma createBooking_fresh_error:
  assumes "existing_for s key = None"
  shows "fst (createBooking ch s inp key en) = Inl err
         \<longleftrightarrow> fst (createBooking_tx inp key en s) = Inl err"
  using assms
  by (auto simp: createBooking_def transaction_Inl transaction_Inr
      split: prod.splits sum.splits dest: createBooking_tx_result_ok)

lemma createBooking_tx_validate:
  assumes "err = EventNotFoundError x \<or> err = InsufficientSeatsError x r a"
  shows "fst (createBooking_tx inp key en s) = Inl err
         \<longleftrightarrow> lock_and_validate (events s) (items inp) [] = Inl err"
  using assms
  by (auto simp: createBooking_tx_def Let_def split: sum.splits dest: booking_create_error)

lemma validate_not_found:
  "lock_and_validate evs its [] = Inl (EventNotFoundError x)
   \<longleftrightarrow> (\<exists>item. first_offending evs its = Some item
          \<and> select_for_update evs (eventId item) = [] \<and> x = eventId item)"
proof (cases "first_offending evs its")
  case None
  then show ?thesis
    using lock_and_validate_none [of evs its "[]"] by (auto simp: first_offending_def)
next
  case (Some item)
  then show ?thesis
    using lock_and_validate_offending [of evs its item "[]"]
    by (auto simp: first_offending_def split: list.splits)
qed

lemma validate_insufficient:
  "lock_and_validate evs its [] = Inl (InsufficientSeatsError x r a)
   \<longleftrightarrow> (\<exists>item event rest. first_offending evs its = Some item
          \<and> select_for_update evs (eventId item) = event # rest
          \<and> availableSeats event < quantity item
          \<and> x = eventId item \<and> r = quantity item \<and> a = availableSeats event)"
proof (cases "first_offending evs its")
  case None
  then show ?thesis
    using lock_and_validate_none [of evs its "[]"] by (auto simp: first_offending_def)
next
  case (Some item)
  then have "offending evs item"
    by (auto simp: first_offending_def find_Some_iff)
  with Some show ?thesis
    using lock_and_validate_offending [of evs its item "[]"]
    by (auto simp: first_offending_def offending_def split: list.splits)
qed

text \<open>C4, as the code has it: when no booking is stored under a supplied idempotency
  key, so that the transaction runs, \<^verbatim>\<open>createBooking\<close> fails with
  \<open>EventNotFoundError\<close> exactly when the first offending item, in the order submitted,
  names an event without a row, and with \<open>InsufficientSeatsError\<close> exactly when the
  first offending item asks for more than the \<open>availableSeats\<close> of its event; the error
  carries that item's event, its quantity and the availability read; when no item
  offends, neither error is raised.\<close>

theorem reserve_failure_order:
  assumes "existing_for s key = None"
  shows "(fst (createBooking channel s input key en) = Inl (EventNotFoundError x)
            \<longleftrightarrow> (\<exists>item. first_offending (events s) (items input) = Some item
                   \<and> select_for_update (events s) (eventId item) = []
                   \<and> x = eventId item))
       \<and> (fst (createBooking channel s input key en) = Inl (InsufficientSeatsError x r a)
            \<longleftrightarrow> (\<exists>item event rest. first_offending (events s) (items input) = Some item
                   \<and> select_for_update (events s) (eventId item) = event # rest
                   \<and> availableSeats event < quantity item
                   \<and> x = eventId item \<and> r = quantity item \<and> a = availableSeats event))
       \<and> (first_offending (events s) (items input) = None
            \<longrightarrow> (\<forall>y q v. fst (createBooking channel s input key en) \<noteq> Inl (EventNotFoundError y)
                       \<and> fst (createBooking channel s input key en)
                           \<noteq> Inl (InsufficientSeatsError y q v)))"
proof -
  have nf: "fst (createBooking channel s input key en) = Inl (EventNotFoundError y)
            \<longleftrightarrow> lock_and_validate (events s) (items input) [] = Inl (EventNotFoundError y)" for y
    using createBooking_fresh_error [OF assms] createBooking_tx_validate by blast
  have ins: "fst (createBooking channel s input key en) = Inl (InsufficientSeatsError y q v)
            \<longleftrightarrow> lock_and_validate (events s) (items input) [] = Inl (InsufficientSeatsError y q v)"
    for y q v
    using createBooking_fresh_error [OF assms] createBooking_tx_validate by blast
  show ?thesis
    unfolding nf ins validate_not_found validate_insufficient by auto
qed

theorem reserve_failure_order_witness:
  "existing_for seeded None = None
   \<and> first_offending (events seeded) (items (order [(''e-jazz'', 1), (''e-concert'', 5)]))
       = Some \<lparr>eventId = ''e-concert'', quantity = 5\<rparr>
   \<and> fst (createBooking ConsoleNotificationChannel seeded
            (order [(''e-jazz'', 1), (''e-concert'', 5)]) None \<lparr>newId = ''b1'', now = 7\<rparr>)
       = Inl (InsufficientSeatsError ''e-concert'' 5 2)"
proof -
  have h: "existing_for seeded None = None"
    by (simp add: existing_for_def supplied_def)
  have f: "first_offending (events seeded) (items (order [(''e-jazz'', 1), (''e-concert'', 5)]))
       = Some \<lparr>eventId = ''e-concert'', quantity = 5\<rparr>"
    by (simp add: first_offending_def offending_def seeded_def order_def jazz_def concert_def
        select_for_update_def)
  have sel: "select_for_update (events seeded) ''e-concert'' = [concert]"
    by (simp add: seeded_def jazz_def concert_def select_for_update_def)
  from reserve_failure_order [OF h, of ConsoleNotificationChannel
      "order [(''e-jazz'', 1), (''e-concert'', 5)]" "\<lparr>newId = ''b1'', now = 7\<rparr>"
      "''e-concert''" 5 2] f sel
  have "fst (createBooking ConsoleNotificationChannel seeded
            (order [(''e-jazz'', 1), (''e-concert'', 5)]) None \<lparr>newId = ''b1'', now = 7\<rparr>)
       = Inl (InsufficientSeatsError ''e-concert'' 5 2)"
    by (simp add: concert_def)
  with h f show ?thesis by simp
qed

text \<open>C4 as stated fails where the idempotency check answers: in the store \<open>booked\<close>
  the only item of the request names an event that does not exist, and the call with
  the key \<open>k1\<close> returns the stored booking.\<close>

theorem reserve_failure_order_counterexample:
  "first_offending (events booked) (items (order [(''e-none'', 1)]))
       = Some \<lparr>eventId = ''e-none'', quantity = 1\<rparr>
   \<and> select_for_update (events booked) ''e-none'' = []
   \<and> fst (createBooking ConsoleNotificationChannel booked (order [(''e-none'', 1)])
            (Some ''k1'') \<lparr>newId = ''b2'', now = 8\<rparr>)
       = Inr \<lparr>br_id = ''b1'', br_customerEmail = ''test@example.com'', br_status = CONFIRMED,
              br_createdAt = 7,
              br_items = [\<lparr>ri_eventId = ''e-jazz'', ri_eventName = ''Jazz Night'',
                           ri_quantity = 1\<rparr>],
              br_totalTickets = 1\<rparr>
   \<and> fst (createBooking ConsoleNotificationChannel booked (order [(''e-none'', 1)])
            (Some ''k1'') \<lparr>newId = ''b2'', now = 8\<rparr>)
       \<noteq> Inl (EventNotFoundError ''e-none'')"
  by (simp add: first_offending_def offending_def order_def booked_def jazz_def concert_def
      select_for_update_def createBooking_def existing_for_def supplied_def find_by_key_def
      read_projection_def project_def)

section \<open>Evaluation on the seeded store\<close>

lemmas ev_defs = seeded_def booked_def jazz_def concert_def order_def
lemmas run_defs = createBooking_def existing_for_def supplied_def find_by_key_def find_by_id_def
  transaction_def createBooking_tx_def select_for_update_def decrement_seats_def
  restore_seats_def booking_create_def booking_result_def read_projection_def project_def
  notify_def notification_of_def ConsoleNotificationChannel_def cancelBooking_def
  cancelBooking_tx_def booking_cancel_def Let_def

lemma booked_reached:
  "createBooking ConsoleNotificationChannel seeded (order [(''e-jazz'', 1)]) (Some ''k1'')
      \<lparr>newId = ''b1'', now = 7\<rparr>
   = (Inr \<lparr>br_id = ''b1'', br_customerEmail = ''test@example.com'', br_status = CONFIRMED,
            br_createdAt = 7,
            br_items = [\<lparr>ri_eventId = ''e-jazz'', ri_eventName = ''Jazz Night'',
                         ri_quantity = 1\<rparr>],
            br_totalTickets = 1\<rparr>, booked, [])"
  by (simp add: ev_defs run_defs)

section \<open>The result of a reservation\<close>

lemma createBooking_fresh_Inr:
  assumes "existing_for s key = None"
    and "createBooking channel s input key en = (Inr r, s1, out)"
  shows "\<exists>booking ds. createBooking_tx input key en s = (Inr (booking, ds), s1)
           \<and> booking_result booking ds = Inr r"
  using assms
  by (auto simp: createBooking_def transaction_Inl transaction_Inr
      split: prod.splits sum.splits)



lemma select_id: "select_for_update evs x = e # rest \<Longrightarrow> ev_id e = x"
proof -
  assume "select_for_update evs x = e # rest"
  then have "e \<in> set (filter (\<lambda>e. ev_id e = x) evs)"
    by (simp add: select_for_update_def)
  then show ?thesis by simp
qed




section \<open>Idempotent retry\<close>

lemma find_append_last:
  "find P xs = None \<Longrightarrow> P b \<Longrightarrow> find P (xs @ [b]) = Some b"
  by (induction xs) (auto split: if_splits)

lemma find_Some_mem: "find P xs = Some x \<Longrightarrow> x \<in> set xs \<and> P x"
  by (auto simp: find_Some_iff)

lemma existing_for_key: "k \<noteq> [] \<Longrightarrow> existing_for s (Some k) = find_by_key (bookings s) k"
  by (simp add: existing_for_def supplied_def)

lemma createBooking_replay:
  "existing_for s key = Some b \<Longrightarrow>
   createBooking channel s input key en = (read_projection (events s) b, s, [])"
  by (simp add: createBooking_def)

lemma createBooking_tx_fk:
  assumes "createBooking_tx input key en s = (Inr (booking, ds), s')"
  shows "list_all (\<lambda>it. select_for_update (events s') (bi_eventId it) \<noteq> []) (bk_items booking)"
  using assms
  by (auto simp: createBooking_tx_def Let_def comp_def split: sum.splits dest!: booking_create_Inr)

lemma booking_result_id: "booking_result b ds = Inr r \<Longrightarrow> br_id r = bk_id b"
  by (auto simp: booking_result_def split: sum.splits)

lemma retry_known:
  assumes "k \<noteq> []" and "find_by_key (bookings s) k = Some b" and "fk_ok s"
  shows "\<exists>r. createBooking channel s input (Some k) en = (Inr r, s, [])
           \<and> read_projection (events s) b = Inr r \<and> br_id r = bk_id b"
proof -
  from assms(2) have "b \<in> set (bookings s)"
    by (auto simp: find_by_key_def dest: find_Some_mem)
  with assms(3) obtain joined where "include_event (events s) (bk_items b) = Inr joined"
    using fk_ok_booking by blast
  then obtain r where r: "read_projection (events s) b = Inr r"
    by (simp add: read_projection_def)
  moreover from assms(1,2) have "existing_for s (Some k) = Some b"
    by (simp add: existing_for_key)
  ultimately show ?thesis
    using createBooking_replay read_projection_status by fastforce
qed

lemma retry_after_success:
  assumes "k \<noteq> []"
    and "createBooking channel s input (Some k) en = (Inr r1, s1, out1)"
  shows "\<exists>r2. createBooking channel' s1 input' (Some k) en' = (Inr r2, s1, [])
           \<and> br_id r2 = br_id r1"
proof (cases "existing_for s (Some k)")
  case (Some b)
  from createBooking_replay [OF Some, of channel input en] assms(2)
  have "read_projection (events s) b = Inr r1" and "s1 = s" by simp_all
  with createBooking_replay [OF Some, of channel' input' en'] show ?thesis by simp
next
  case None
  from createBooking_fresh_Inr [OF None assms(2)] obtain booking ds where
    tx: "createBooking_tx input (Some k) en s = (Inr (booking, ds), s1)"
    and res: "booking_result booking ds = Inr r1"
    by blast
  note b = createBooking_tx_Inr(2) [OF tx]
  note s1 = createBooking_tx_Inr(3) [OF tx]
  from None assms(1) have "find (\<lambda>b. bk_idempotencyKey b = Some k) (bookings s) = None"
    by (simp add: existing_for_key find_by_key_def)
  moreover from b assms(1) have "bk_idempotencyKey booking = Some k"
    by (simp add: supplied_def)
  ultimately have "find_by_key (bookings s1) k = Some booking"
    unfolding find_by_key_def s1 by (simp add: find_append_last)
  with assms(1) have ex: "existing_for s1 (Some k) = Some booking"
    by (simp add: existing_for_key)
  from createBooking_tx_fk [OF tx]
  obtain joined where "include_event (events s1) (bk_items booking) = Inr joined"
    using include_event_ok by blast
  then obtain r2 where r2: "read_projection (events s1) booking = Inr r2"
    by (simp add: read_projection_def)
  with read_projection_status [OF r2] booking_result_id [OF res]
    createBooking_replay [OF ex, of channel' input' en']
  show ?thesis by simp
qed

text \<open>C5, as the code has it: for every key \<open>k\<close> that is not the empty string, in a
  store that holds a booking under \<open>k\<close> (and whose line items reference existing
  events) \<^verbatim>\<open>createBooking\<close> with \<open>k\<close> returns the projection of that booking, with its
  identifier, and leaves the store as it is: no seat is taken and no booking is created.
  Hence after a successful call with \<open>k\<close>, every further call with \<open>k\<close> returns the same
  booking identifier and leaves the store that the first call produced.\<close>

theorem idempotent_retry:
  assumes "k \<noteq> []"
  shows "(\<forall>b. find_by_key (bookings s) k = Some b \<and> fk_ok s
            \<longrightarrow> (\<exists>r. createBooking channel s input (Some k) en = (Inr r, s, [])
                      \<and> read_projection (events s) b = Inr r \<and> br_id r = bk_id b))
       \<and> (\<forall>r1 s1 out1. createBooking channel s input (Some k) en = (Inr r1, s1, out1)
            \<longrightarrow> (\<exists>r2. createBooking channel' s1 input' (Some k) en' = (Inr r2, s1, [])
                      \<and> br_id r2 = br_id r1))"
  using retry_known [OF assms] retry_after_success [OF assms] by blast

theorem idempotent_retry_witness:
  "''k1'' \<noteq> []
   \<and> find_by_key (bookings booked) ''k1''
       = Some \<lparr>bk_id = ''b1'', bk_customerEmail = ''test@example.com'',
                bk_status = CONFIRMED, bk_createdAt = 7, bk_idempotencyKey = Some ''k1'',
                bk_items = [\<lparr>bi_eventId = ''e-jazz'', bi_quantity = 1\<rparr>]\<rparr>
   \<and> fk_ok booked
   \<and> (\<exists>r. createBooking ConsoleNotificationChannel booked (order [(''e-concert'', 2)])
              (Some ''k1'') \<lparr>newId = ''b2'', now = 8\<rparr> = (Inr r, booked, [])
          \<and> br_id r = ''b1'')
   \<and> createBooking ConsoleNotificationChannel seeded (order [(''e-jazz'', 1)]) (Some ''k1'')
        \<lparr>newId = ''b1'', now = 7\<rparr>
       = (Inr \<lparr>br_id = ''b1'', br_customerEmail = ''test@example.com'', br_status = CONFIRMED,
            br_createdAt = 7,
            br_items = [\<lparr>ri_eventId = ''e-jazz'', ri_eventName = ''Jazz Night'',
                         ri_quantity = 1\<rparr>],
            br_totalTickets = 1\<rparr>, booked, [])
   \<and> (\<exists>r2. createBooking ConsoleNotificationChannel booked (order [(''e-jazz'', 1)])
              (Some ''k1'') \<lparr>newId = ''b2'', now = 8\<rparr> = (Inr r2, booked, [])
          \<and> br_id r2 = ''b1'')"
proof -
  have k: "''k1'' \<noteq> []" by simp
  have f: "find_by_key (bookings booked) ''k1''
       = Some \<lparr>bk_id = ''b1'', bk_customerEmail = ''test@example.com'',
                bk_status = CONFIRMED, bk_createdAt = 7, bk_idempotencyKey = Some ''k1'',
                bk_items = [\<lparr>bi_eventId = ''e-jazz'', bi_quantity = 1\<rparr>]\<rparr>"
    by (simp add: find_by_key_def booked_def)
  have fk: "fk_ok booked"
    by (simp add: fk_ok_def booked_def jazz_def concert_def select_for_update_def)
  from idempotent_retry [OF k, of booked ConsoleNotificationChannel
      "order [(''e-concert'', 2)]" "\<lparr>newId = ''b2'', now = 8\<rparr>" ConsoleNotificationChannel
      "order [(''e-concert'', 2)]" "\<lparr>newId = ''b2'', now = 8\<rparr>"] f fk
  have one: "\<exists>r. createBooking ConsoleNotificationChannel booked (order [(''e-concert'', 2)])
              (Some ''k1'') \<lparr>newId = ''b2'', now = 8\<rparr> = (Inr r, booked, [])
          \<and> br_id r = ''b1''"
    by auto
  from idempotent_retry [OF k, of seeded ConsoleNotificationChannel
      "order [(''e-jazz'', 1)]" "\<lparr>newId = ''b1'', now = 7\<rparr>" ConsoleNotificationChannel
      "order [(''e-jazz'', 1)]" "\<lparr>newId = ''b2'', now = 8\<rparr>"] booked_reached
  have two: "\<exists>r2. createBooking ConsoleNotificationChannel booked (order [(''e-jazz'', 1)])
              (Some ''k1'') \<lparr>newId = ''b2'', now = 8\<rparr> = (Inr r2, booked, [])
          \<and> br_id r2 = ''b1''"
    by auto
  from k f fk one booked_reached two show ?thesis by (intro conjI)
qed

text \<open>C5 as stated fails for the empty string: \<^verbatim>\<open>if (idempotencyKey)\<close> treats it as no
  key. Two calls with the empty key, one after the other from the seeded store, return
  two different bookings and take two seats of the jazz night.\<close>

theorem idempotent_retry_counterexample:
  "fst (createBooking ConsoleNotificationChannel seeded (order [(''e-jazz'', 1)]) (Some [])
          \<lparr>newId = ''b1'', now = 7\<rparr>)
     = Inr \<lparr>br_id = ''b1'', br_customerEmail = ''test@example.com'', br_status = CONFIRMED,
            br_createdAt = 7,
            br_items = [\<lparr>ri_eventId = ''e-jazz'', ri_eventName = ''Jazz Night'',
                         ri_quantity = 1\<rparr>],
            br_totalTickets = 1\<rparr>
   \<and> fst (createBooking ConsoleNotificationChannel
          (fst (snd (createBooking ConsoleNotificationChannel seeded (order [(''e-jazz'', 1)])
                       (Some []) \<lparr>newId = ''b1'', now = 7\<rparr>)))
          (order [(''e-jazz'', 1)]) (Some []) \<lparr>newId = ''b2'', now = 8\<rparr>)
     = Inr \<lparr>br_id = ''b2'', br_customerEmail = ''test@example.com'', br_status = CONFIRMED,
            br_createdAt = 8,
            br_items = [\<lparr>ri_eventId = ''e-jazz'', ri_eventName = ''Jazz Night'',
                         ri_quantity = 1\<rparr>],
            br_totalTickets = 1\<rparr>
   \<and> map availableSeats (events seeded) = [50, 2]
   \<and> map availableSeats (events (fst (snd (createBooking ConsoleNotificationChannel
          (fst (snd (createBooking ConsoleNotificationChannel seeded (order [(''e-jazz'', 1)])
                       (Some []) \<lparr>newId = ''b1'', now = 7\<rparr>)))
          (order [(''e-jazz'', 1)]) (Some []) \<lparr>newId = ''b2'', now = 8\<rparr>)))) = [48, 2]"
  by (simp add: ev_defs run_defs)

section \<open>Reserve, then cancel\<close>

lemma seats_for_Cons:
  "seats_for (p # ps) x = (if fst p = x then snd p else 0) + seats_for ps x"
  by (simp add: seats_for_def)

lemma seats_for_Nil [simp]: "seats_for [] x = 0"
  by (simp add: seats_for_def)

lemma avail_decrement_seats:
  "map availableSeats (decrement_seats evs eid q t)
     = map (\<lambda>e. availableSeats e - (if ev_id e = eid then q else 0)) evs"
  by (induction evs) (auto simp: decrement_seats_def)

lemma avail_restore_seats:
  "map availableSeats (restore_seats evs eid q t)
     = map (\<lambda>e. availableSeats e + (if ev_id e = eid then q else 0)) evs"
  by (induction evs) (auto simp: restore_seats_def)

lemma map_by_id:
  assumes "map ev_id xs = map ev_id ys" and "map availableSeats xs = map g ys"
  shows "map (\<lambda>e. availableSeats e + f (ev_id e)) xs = map (\<lambda>e. g e + f (ev_id e)) ys"
proof -
  from assms(1) have "length xs = length ys" by (rule map_eq_imp_length_eq)
  then show ?thesis using assms
    by (induction xs ys rule: list_induct2) auto
qed

lemma avail_decrement_all:
  "map availableSeats (decrement_all evs ds t)
     = map (\<lambda>e. availableSeats e
              - seats_for (map (\<lambda>d. (ed_id d, ed_requestedQuantity d)) ds) (ev_id e)) evs"
proof (induction ds arbitrary: evs)
  case Nil
  then show ?case by simp
next
  case (Cons d ds)
  have "map availableSeats (decrement_all evs (d # ds) t)
      = map (\<lambda>e. availableSeats e
              + - seats_for (map (\<lambda>d. (ed_id d, ed_requestedQuantity d)) ds) (ev_id e))
          (decrement_seats evs (ed_id d) (ed_requestedQuantity d) t)"
    using Cons.IH by simp
  also have "\<dots> = map (\<lambda>e. (availableSeats e - (if ev_id e = ed_id d then ed_requestedQuantity d else 0))
              + - seats_for (map (\<lambda>d. (ed_id d, ed_requestedQuantity d)) ds) (ev_id e)) evs"
    by (rule map_by_id) (simp_all add: avail_decrement_seats)
  also have "\<dots> = map (\<lambda>e. availableSeats e
              - seats_for (map (\<lambda>d. (ed_id d, ed_requestedQuantity d)) (d # ds)) (ev_id e)) evs"
    by (auto simp: seats_for_Cons)
  finally show ?case .
qed

lemma avail_restore_all:
  "map availableSeats (restore_all evs its t)
     = map (\<lambda>e. availableSeats e + item_sum its (ev_id e)) evs"
proof (induction its arbitrary: evs)
  case Nil
  then show ?case by (simp add: item_sum_def)
next
  case (Cons it its)
  have "map availableSeats (restore_all evs (it # its) t)
      = map (\<lambda>e. availableSeats e + item_sum its (ev_id e))
          (restore_seats evs (bi_eventId it) (bi_quantity it) t)"
    using Cons.IH by simp
  also have "\<dots> = map (\<lambda>e. (availableSeats e + (if ev_id e = bi_eventId it then bi_quantity it else 0))
              + item_sum its (ev_id e)) evs"
    by (rule map_by_id) (simp_all add: avail_restore_seats)
  also have "\<dots> = map (\<lambda>e. availableSeats e + item_sum (it # its) (ev_id e)) evs"
    by (auto simp: item_sum_def seats_for_Cons)
  finally show ?case .
qed

lemma details_pairs:
  assumes "lock_and_validate evs its [] = Inr ds"
  shows "map (\<lambda>d. (ed_id d, ed_requestedQuantity d)) ds = map (\<lambda>item. (eventId item, quantity item)) its"
proof -
  from lock_and_validate_Inr [OF assms]
  have rel: "list_all2 (\<lambda>item d. \<exists>e rest. select_for_update evs (eventId item) = e # rest
                  \<and> quantity item \<le> availableSeats e
                  \<and> d = \<lparr>ed_id = ev_id e, ed_name = ev_name e,
                         ed_availableSeats = availableSeats e,
                         ed_requestedQuantity = quantity item\<rparr>) its ds"
    by simp
  show ?thesis
  proof (rule nth_equalityI)
    show "length (map (\<lambda>d. (ed_id d, ed_requestedQuantity d)) ds)
        = length (map (\<lambda>item. (eventId item, quantity item)) its)"
      using rel by (auto dest: list_all2_lengthD)
  next
    fix j assume "j < length (map (\<lambda>d. (ed_id d, ed_requestedQuantity d)) ds)"
    then have j: "j < length ds" by simp
    with rel have jj: "j < length its" by (auto dest: list_all2_lengthD)
    with rel obtain e rest where "select_for_update evs (eventId (its ! j)) = e # rest"
      and "ds ! j = \<lparr>ed_id = ev_id e, ed_name = ev_name e,
                         ed_availableSeats = availableSeats e,
                         ed_requestedQuantity = quantity (its ! j)\<rparr>"
      by (auto simp: list_all2_conv_all_nth)
    with j jj select_id show "map (\<lambda>d. (ed_id d, ed_requestedQuantity d)) ds ! j
        = map (\<lambda>item. (eventId item, quantity item)) its ! j"
      by simp
  qed
qed

lemma find_by_id_new:
  "bid \<notin> set (map bk_id bks) \<Longrightarrow> bk_id b = bid \<Longrightarrow> find_by_id (bks @ [b]) bid = Some b"
  unfolding find_by_id_def
  by (rule find_append_last) (auto simp: find_None_iff image_iff)

text \<open>C6, as the code has it: when the transaction of \<^verbatim>\<open>createBooking\<close> runs (no booking
  is stored under a supplied idempotency key) and the call succeeds, \<^verbatim>\<open>cancelBooking\<close>
  of the returned identifier succeeds, its result has the status \<open>CANCELLED\<close>, and every
  event row has the \<open>availableSeats\<close> it had before the reservation.\<close>

theorem reserve_cancel_roundtrip:
  assumes "existing_for s key = None"
    and "createBooking channel s input key en = (Inr r, s1, out)"
  shows "\<exists>r' s2. cancelBooking s1 (br_id r) t = (Inr r', s2)
           \<and> br_status r' = CANCELLED \<and> br_id r' = br_id r
           \<and> map ev_id (events s2) = map ev_id (events s)
           \<and> map availableSeats (events s2) = map availableSeats (events s)"
proof -
  from createBooking_fresh_Inr [OF assms] obtain booking ds where
    tx: "createBooking_tx input key en s = (Inr (booking, ds), s1)"
    and res: "booking_result booking ds = Inr r"
    by blast
  note lv = createBooking_tx_Inr(1) [OF tx]
  note b = createBooking_tx_Inr(2) [OF tx]
  note s1 = createBooking_tx_Inr(3) [OF tx]
  note fresh = createBooking_tx_Inr(4) [OF tx]
  have id: "br_id r = newId en" using booking_result_id [OF res] b by simp
  have found: "find_by_id (bookings s1) (newId en) = Some booking"
    unfolding s1 using find_by_id_new [OF fresh] b by simp
  from createBooking_tx_fk [OF tx]
  obtain joined where j: "include_event (events s1) (bk_items booking) = Inr joined"
    using include_event_ok by blast
  define evs2 where "evs2 = restore_all (events s1) (bk_items booking) t"
  have ids: "map ev_id evs2 = map ev_id (events s)"
    unfolding evs2_def s1 by simp
  from include_event_ids [OF _ j, of evs2]
  obtain joined' where j': "include_event evs2 (bk_items booking) = Inr joined'"
    unfolding evs2_def by auto
  define r' where "r' = project (booking\<lparr>bk_status := CANCELLED\<rparr>) joined'"
  define s2 where "s2 = \<lparr>events = evs2, bookings = booking_cancel (bookings s1) (newId en)\<rparr>"
  have st: "bk_status booking \<noteq> CANCELLED" using b by simp
  have cancel: "cancelBooking s1 (newId en) t = (Inr r', s2)"
    using found j j' st
    by (simp add: cancelBooking_def transaction_def cancelBooking_tx_def Let_def
        read_projection_def r'_def s2_def evs2_def)
  have pairs: "map (\<lambda>it. (bi_eventId it, bi_quantity it)) (bk_items booking)
             = map (\<lambda>d. (ed_id d, ed_requestedQuantity d)) ds"
    using details_pairs [OF lv] b by (simp add: comp_def)
  have "map availableSeats evs2
      = map (\<lambda>e. availableSeats e + item_sum (bk_items booking) (ev_id e))
          (decrement_all (events s) ds (now en))"
    unfolding evs2_def s1 by (simp add: avail_restore_all)
  also have "\<dots> = map (\<lambda>e. (availableSeats e
              - seats_for (map (\<lambda>d. (ed_id d, ed_requestedQuantity d)) ds) (ev_id e))
              + item_sum (bk_items booking) (ev_id e)) (events s)"
    by (rule map_by_id) (simp_all add: avail_decrement_all)
  also have "\<dots> = map availableSeats (events s)"
    by (simp add: item_sum_def pairs)
  finally have seats: "map availableSeats evs2 = map availableSeats (events s)" .
  have "br_status r' = CANCELLED \<and> br_id r' = br_id r"
    using id b by (simp add: r'_def project_def)
  with cancel ids seats id show ?thesis
    by (intro exI [of _ r'] exI [of _ s2]) (simp add: s2_def)
qed

theorem reserve_cancel_roundtrip_witness:
  "existing_for seeded (Some ''k1'') = None
   \<and> createBooking ConsoleNotificationChannel seeded (order [(''e-jazz'', 1)]) (Some ''k1'')
        \<lparr>newId = ''b1'', now = 7\<rparr>
       = (Inr \<lparr>br_id = ''b1'', br_customerEmail = ''test@example.com'', br_status = CONFIRMED,
            br_createdAt = 7,
            br_items = [\<lparr>ri_eventId = ''e-jazz'', ri_eventName = ''Jazz Night'',
                         ri_quantity = 1\<rparr>],
            br_totalTickets = 1\<rparr>, booked, [])
   \<and> (\<exists>r' s2. cancelBooking booked ''b1'' 9 = (Inr r', s2)
          \<and> br_status r' = CANCELLED \<and> br_id r' = ''b1''
          \<and> map ev_id (events s2) = [''e-jazz'', ''e-concert'']
          \<and> map availableSeats (events s2) = [50, 2])"
proof -
  have h: "existing_for seeded (Some ''k1'') = None"
    by (simp add: existing_for_def supplied_def find_by_key_def seeded_def)
  from reserve_cancel_roundtrip [OF h booked_reached, of 9]
  have "\<exists>r' s2. cancelBooking booked ''b1'' 9 = (Inr r', s2)
          \<and> br_status r' = CANCELLED \<and> br_id r' = ''b1''
          \<and> map ev_id (events s2) = [''e-jazz'', ''e-concert'']
          \<and> map availableSeats (events s2) = [50, 2]"
    by (simp add: seeded_def jazz_def concert_def)
  with h booked_reached show ?thesis by (intro conjI)
qed

text \<open>C6 as stated fails for a call that the idempotency check answers: nothing is
  reserved, and cancelling the booking returned gives back a seat that the earlier
  state did not have.\<close>

theorem reserve_cancel_roundtrip_counterexample:
  "createBooking ConsoleNotificationChannel booked (order [(''e-jazz'', 1)]) (Some ''k1'')
        \<lparr>newId = ''b2'', now = 8\<rparr>
       = (Inr \<lparr>br_id = ''b1'', br_customerEmail = ''test@example.com'', br_status = CONFIRMED,
            br_createdAt = 7,
            br_items = [\<lparr>ri_eventId = ''e-jazz'', ri_eventName = ''Jazz Night'',
                         ri_quantity = 1\<rparr>],
            br_totalTickets = 1\<rparr>, booked, [])
   \<and> map availableSeats (events booked) = [49, 2]
   \<and> map availableSeats (events (snd (cancelBooking booked ''b1'' 9))) = [50, 2]"
  by (simp add: ev_defs run_defs)

section \<open>The seat invariant along a run\<close>

lemma seats_for_nonneg: "(\<forall>p \<in> set ps. 0 \<le> snd p) \<Longrightarrow> 0 \<le> seats_for ps x"
  by (auto simp: seats_for_def intro!: sum_list_nonneg)

lemma item_sum_nonneg: "list_all (\<lambda>it. 0 \<le> bi_quantity it) its \<Longrightarrow> 0 \<le> item_sum its x"
  by (auto simp: item_sum_def list_all_iff intro!: seats_for_nonneg)

lemma reserved_nonneg:
  "list_all (\<lambda>b. bk_id b \<notin> set R \<or> list_all (\<lambda>it. 0 \<le> bi_quantity it) (bk_items b)) bks
   \<Longrightarrow> 0 \<le> reserved R bks x"
  by (auto simp: reserved_def list_all_iff intro!: sum_list_nonneg item_sum_nonneg)

lemma seats_for_absent: "x \<notin> fst ` set ps \<Longrightarrow> seats_for ps x = 0"
  by (induction ps) (auto simp: seats_for_Cons)

lemma seats_for_distinct:
  "distinct (map fst ps) \<Longrightarrow> (x, q) \<in> set ps \<Longrightarrow> seats_for ps x = q"
  by (induction ps) (auto simp: seats_for_Cons seats_for_absent image_iff)

lemma decrement_seats_totals [simp]:
  "map totalSeats (decrement_seats evs eid q t) = map totalSeats evs"
  by (induction evs) (auto simp: decrement_seats_def)

lemma decrement_all_totals [simp]: "map totalSeats (decrement_all evs ds t) = map totalSeats evs"
  by (induction ds arbitrary: evs) auto

lemma restore_seats_totals [simp]:
  "map totalSeats (restore_seats evs eid q t) = map totalSeats evs"
  by (induction evs) (auto simp: restore_seats_def)

lemma restore_all_totals [simp]: "map totalSeats (restore_all evs its t) = map totalSeats evs"
  by (induction its arbitrary: evs) auto

lemma rows_by_maps:
  assumes "map ev_id xs = map ev_id ys" and "map totalSeats xs = map totalSeats ys"
    and "map availableSeats xs = map g ys" and "e' \<in> set xs"
  shows "\<exists>e \<in> set ys. ev_id e' = ev_id e \<and> totalSeats e' = totalSeats e \<and> availableSeats e' = g e"
proof -
  from assms(1) have "length xs = length ys" by (rule map_eq_imp_length_eq)
  then show ?thesis using assms
    by (induction xs ys rule: list_induct2) auto
qed

lemma validated_item:
  assumes "lock_and_validate evs its [] = Inr ds" and "item \<in> set its"
  shows "\<exists>e rest. select_for_update evs (eventId item) = e # rest
           \<and> quantity item \<le> availableSeats e"
proof -
  from lock_and_validate_Inr [OF assms(1)]
  have rel: "list_all2 (\<lambda>item d. \<exists>e rest. select_for_update evs (eventId item) = e # rest
                  \<and> quantity item \<le> availableSeats e
                  \<and> d = \<lparr>ed_id = ev_id e, ed_name = ev_name e,
                         ed_availableSeats = availableSeats e,
                         ed_requestedQuantity = quantity item\<rparr>) its ds"
    by simp
  from assms(2) obtain j where "j < length its" and "its ! j = item"
    by (auto simp: in_set_conv_nth)
  with rel show ?thesis
    by (auto simp: list_all2_conv_all_nth)
qed

lemma select_mem: "select_for_update evs x = e # rest \<Longrightarrow> e \<in> set evs"
proof -
  assume "select_for_update evs x = e # rest"
  then have "e \<in> set (filter (\<lambda>e. ev_id e = x) evs)"
    by (simp add: select_for_update_def)
  then show ?thesis by simp
qed

lemma demand_le_available:
  assumes lv: "lock_and_validate evs its [] = Inr ds"
    and di: "distinct (map eventId its)"
    and pk: "distinct (map ev_id evs)"
    and e: "e \<in> set evs" and nonneg: "0 \<le> availableSeats e"
  shows "seats_for (map (\<lambda>item. (eventId item, quantity item)) its) (ev_id e) \<le> availableSeats e"
proof (cases "ev_id e \<in> eventId ` set its")
  case False
  then have "ev_id e \<notin> fst ` set (map (\<lambda>item. (eventId item, quantity item)) its)"
    by (auto simp: image_iff)
  then show ?thesis using nonneg by (simp add: seats_for_absent)
next
  case True
  then obtain item where item: "item \<in> set its" and id: "eventId item = ev_id e" by auto
  from validated_item [OF lv item] obtain e1 rest where
    sel: "select_for_update evs (eventId item) = e1 # rest"
    and le: "quantity item \<le> availableSeats e1"
    by blast
  from select_mem [OF sel] select_id [OF sel] id have "e1 \<in> set evs" "ev_id e1 = ev_id e"
    by simp_all
  with pk e have "e1 = e"
    by (auto simp: distinct_map dest: inj_onD)
  moreover have "seats_for (map (\<lambda>item. (eventId item, quantity item)) its) (ev_id e) = quantity item"
  proof (rule seats_for_distinct)
    show "distinct (map fst (map (\<lambda>item. (eventId item, quantity item)) its))"
      using di by (simp add: comp_def)
    show "(ev_id e, quantity item) \<in> set (map (\<lambda>item. (eventId item, quantity item)) its)"
      using item id by (auto simp: image_iff intro!: bexI [of _ item])
  qed
  ultimately show ?thesis using le by simp
qed

lemma reserved_append_new:
  assumes "nid \<notin> set (map bk_id bks)" and "bk_id booking = nid" and "bk_status booking = CONFIRMED"
  shows "reserved (R @ [nid]) (bks @ [booking]) x = reserved R bks x + item_sum (bk_items booking) x"
proof -
  have "filter (\<lambda>b. bk_id b \<in> set (R @ [nid]) \<and> bk_status b = CONFIRMED) bks
      = filter (\<lambda>b. bk_id b \<in> set R \<and> bk_status b = CONFIRMED) bks"
    using assms(1) by (intro filter_cong) auto
  then show ?thesis using assms(2,3) by (simp add: reserved_def)
qed

lemma new_ids_same [simp]: "new_ids s s = []"
  by (simp add: new_ids_def filter_empty_conv)

lemma seats_inv_lower: "seats_inv s \<Longrightarrow> e \<in> set (events s) \<Longrightarrow> 0 \<le> availableSeats e"
  by (simp add: seats_inv_def list_all_iff)

lemma create_fresh_ledger:
  assumes inv: "ledger_inv R s" and pre: "schema_pre input"
    and tx: "createBooking_tx input key en s = (Inr (booking, ds), s1)"
  shows "ledger_inv (R @ [newId en]) s1 \<and> new_ids s s1 = [newId en]"
proof -
  note lv = createBooking_tx_Inr(1) [OF tx]
  note b = createBooking_tx_Inr(2) [OF tx]
  note s1 = createBooking_tx_Inr(3) [OF tx]
  note fresh = createBooking_tx_Inr(4) [OF tx]
  from inv have pk: "distinct (map ev_id (events s))" and si: "seats_inv s"
    and rec: "recorded R s"
    by (simp_all add: ledger_inv_def events_pk_def)
  from pre have di: "distinct (map eventId (items input))"
    and q: "\<And>item. item \<in> set (items input) \<Longrightarrow> 0 \<le> quantity item"
    by (auto simp: schema_pre_def list_all_iff)
  define D where "D = seats_for (map (\<lambda>item. (eventId item, quantity item)) (items input))"
  have Dpairs: "seats_for (map (\<lambda>d. (ed_id d, ed_requestedQuantity d)) ds) = D"
    unfolding D_def using details_pairs [OF lv] by simp
  have Ditems: "item_sum (bk_items booking) x = D x" for x
    unfolding D_def item_sum_def b by (simp add: comp_def)
  have Dnonneg: "0 \<le> D x" for x
    unfolding D_def using q by (intro seats_for_nonneg) auto
  have Dle: "D (ev_id e) \<le> availableSeats e" if "e \<in> set (events s)" for e
    unfolding D_def using demand_le_available [OF lv di pk that] seats_inv_lower [OF si that]
    by simp
  have rows: "\<exists>e \<in> set (events s). ev_id e' = ev_id e \<and> totalSeats e' = totalSeats e
                \<and> availableSeats e' = availableSeats e - D (ev_id e)"
    if "e' \<in> set (events s1)" for e'
  proof (rule rows_by_maps [of "events s1" "events s"])
    show "map ev_id (events s1) = map ev_id (events s)" unfolding s1 by simp
    show "map totalSeats (events s1) = map totalSeats (events s)" unfolding s1 by simp
    show "map availableSeats (events s1) = map (\<lambda>e. availableSeats e - D (ev_id e)) (events s)"
      unfolding s1 by (simp add: avail_decrement_all Dpairs)
    show "e' \<in> set (events s1)" by (rule that)
  qed
  have new: "new_ids s s1 = [newId en]"
    unfolding new_ids_def s1 using fresh b by (simp add: filter_empty_conv)
  have pk1: "events_pk s1"
    unfolding events_pk_def s1 using pk by simp
  have si1: "seats_inv s1"
    unfolding seats_inv_def list_all_iff
  proof
    fix e' assume "e' \<in> set (events s1)"
    from rows [OF this] obtain e where e: "e \<in> set (events s)"
      and eq: "totalSeats e' = totalSeats e" "availableSeats e' = availableSeats e - D (ev_id e)"
      by blast
    from si e have "availableSeats e \<le> totalSeats e"
      by (simp add: seats_inv_def list_all_iff)
    with Dle [OF e] Dnonneg [of "ev_id e"] eq
    show "0 \<le> availableSeats e' \<and> availableSeats e' \<le> totalSeats e'" by simp
  qed
  have filt: "filter (\<lambda>i. i \<in> set (R @ [newId en])) (map bk_id (bookings s))
            = filter (\<lambda>i. i \<in> set R) (map bk_id (bookings s))"
  proof (rule filter_cong [OF refl])
    fix i assume "i \<in> set (map bk_id (bookings s))"
    with fresh have "i \<noteq> newId en" by blast
    then show "(i \<in> set (R @ [newId en])) = (i \<in> set R)" by simp
  qed
  have r1: "distinct (filter (\<lambda>i. i \<in> set (R @ [newId en])) (map bk_id (bookings s1)))"
    unfolding s1 using rec fresh b filt by (simp add: recorded_def)
  have r2: "list_all (\<lambda>b. bk_id b \<notin> set (R @ [newId en])
                \<or> list_all (\<lambda>it. 0 \<le> bi_quantity it) (bk_items b)) (bookings s1)"
    unfolding list_all_iff
  proof
    fix c assume "c \<in> set (bookings s1)"
    then consider "c \<in> set (bookings s)" | "c = booking" unfolding s1 by auto
    then show "bk_id c \<notin> set (R @ [newId en])
                \<or> (\<forall>it \<in> set (bk_items c). 0 \<le> bi_quantity it)"
    proof cases
      case 1
      with fresh have "bk_id c \<noteq> newId en" by (auto simp: image_iff)
      moreover from rec 1 have "bk_id c \<notin> set R
                \<or> list_all (\<lambda>it. 0 \<le> bi_quantity it) (bk_items c)"
        by (simp add: recorded_def list_all_iff)
      ultimately show ?thesis by (auto simp: list_all_iff)
    next
      case 2
      then show ?thesis using b q by auto
    qed
  qed
  have r3: "list_all (\<lambda>e. availableSeats e + reserved (R @ [newId en]) (bookings s1) (ev_id e)
                \<le> totalSeats e) (events s1)"
    unfolding list_all_iff
  proof
    fix e' assume "e' \<in> set (events s1)"
    from rows [OF this] obtain e where e: "e \<in> set (events s)"
      and eq: "ev_id e' = ev_id e" "totalSeats e' = totalSeats e"
        "availableSeats e' = availableSeats e - D (ev_id e)"
      by blast
    have "reserved (R @ [newId en]) (bookings s1) (ev_id e)
        = reserved R (bookings s) (ev_id e) + D (ev_id e)"
      unfolding s1 using reserved_append_new [OF fresh, of booking R "ev_id e"] b Ditems by simp
    moreover from rec e have "availableSeats e + reserved R (bookings s) (ev_id e) \<le> totalSeats e"
      by (simp add: recorded_def list_all_iff)
    ultimately show "availableSeats e' + reserved (R @ [newId en]) (bookings s1) (ev_id e')
        \<le> totalSeats e'"
      using eq by simp
  qed
  from pk1 si1 r1 r2 r3 new show ?thesis
    by (simp add: ledger_inv_def recorded_def)
qed

lemma step_create_ledger:
  assumes "ledger_inv R s" and "schema_pre input"
  shows "ledger_inv (R @ new_ids s (step channel s (CreateBooking input key en)))
           (step channel s (CreateBooking input key en))"
proof (cases "existing_for s key")
  case (Some b)
  then show ?thesis using assms(1) by (simp add: createBooking_replay)
next
  case None
  show ?thesis
  proof (cases "fst (createBooking channel s input key en)")
    case (Inl err)
    from createBooking_error_store [OF Inl] show ?thesis using assms(1) by simp
  next
    case (Inr r)
    then have "createBooking channel s input key en
        = (Inr r, fst (snd (createBooking channel s input key en)),
           snd (snd (createBooking channel s input key en)))"
      by (cases "createBooking channel s input key en") simp
    from createBooking_fresh_Inr [OF None this] obtain booking ds where
      "createBooking_tx input key en s
         = (Inr (booking, ds), fst (snd (createBooking channel s input key en)))"
      by blast
    from create_fresh_ledger [OF assms this] show ?thesis by simp
  qed
qed

lemma booking_cancel_ids [simp]: "map bk_id (booking_cancel bks bid) = map bk_id bks"
  by (induction bks) (auto simp: booking_cancel_def)

lemma booking_cancel_other: "bid \<notin> set (map bk_id bks) \<Longrightarrow> booking_cancel bks bid = bks"
  by (induction bks) (auto simp: booking_cancel_def)

lemma booking_cancel_items:
  "c' \<in> set (booking_cancel bks bid) \<Longrightarrow>
   \<exists>c \<in> set bks. bk_id c' = bk_id c \<and> bk_items c' = bk_items c"
  by (auto simp: booking_cancel_def split: if_splits)

lemma reserved_Cons:
  "reserved R (c # cs) x
     = (if bk_id c \<in> set R \<and> bk_status c = CONFIRMED then item_sum (bk_items c) x else 0)
       + reserved R cs x"
  by (simp add: reserved_def)

lemma reserved_cancel:
  assumes "distinct (filter (\<lambda>i. i \<in> set R) (map bk_id bks))" and "bid \<in> set R"
    and "find_by_id bks bid = Some b" and "bk_status b = CONFIRMED"
  shows "reserved R (booking_cancel bks bid) x = reserved R bks x - item_sum (bk_items b) x"
  using assms
proof (induction bks)
  case Nil
  then show ?case by (simp add: find_by_id_def)
next
  case (Cons c cs)
  show ?case
  proof (cases "bk_id c = bid")
    case True
    with Cons.prems have bc: "b = c" by (simp add: find_by_id_def)
    from True Cons.prems(1,2) have "bid \<notin> set (map bk_id cs)" by auto
    then have "booking_cancel cs bid = cs" by (rule booking_cancel_other)
    then have "booking_cancel (c # cs) bid = c\<lparr>bk_status := CANCELLED\<rparr> # cs"
      using True by (simp add: booking_cancel_def)
    then show ?thesis
      using True bc Cons.prems(2,4) by (simp add: reserved_Cons)
  next
    case False
    with Cons.prems have f: "find_by_id cs bid = Some b" by (simp add: find_by_id_def)
    from Cons.prems(1) have d: "distinct (filter (\<lambda>i. i \<in> set R) (map bk_id cs))"
      by (simp split: if_splits)
    have "booking_cancel (c # cs) bid = c # booking_cancel cs bid"
      using False by (simp add: booking_cancel_def)
    with Cons.IH [OF d Cons.prems(2) f Cons.prems(4)] show ?thesis
      by (simp add: reserved_Cons)
  qed
qed

lemma cancel_ledger:
  assumes inv: "ledger_inv R s" and inR: "bid \<in> set R"
  shows "ledger_inv R (snd (cancelBooking s bid t))"
proof (cases "fst (cancelBooking s bid t)")
  case (Inl err)
  from cancelBooking_error_store [OF Inl] inv show ?thesis by simp
next
  case (Inr r)
  define s1 where "s1 = snd (cancelBooking s bid t)"
  from Inr have "cancelBooking s bid t = (Inr r, s1)"
    unfolding s1_def by (cases "cancelBooking s bid t") simp
  from cancelBooking_Inr [OF this] obtain b where
    found: "find_by_id (bookings s) bid = Some b" and conf: "bk_status b = CONFIRMED"
    and s1: "s1 = \<lparr>events = restore_all (events s) (bk_items b) t,
                    bookings = booking_cancel (bookings s) bid\<rparr>"
    by blast
  from inv have pk: "distinct (map ev_id (events s))" and si: "seats_inv s"
    and rec: "recorded R s"
    by (simp_all add: ledger_inv_def events_pk_def)
  from rec have dist: "distinct (filter (\<lambda>i. i \<in> set R) (map bk_id (bookings s)))"
    and qs: "\<And>c. c \<in> set (bookings s) \<Longrightarrow> bk_id c \<in> set R
               \<Longrightarrow> list_all (\<lambda>it. 0 \<le> bi_quantity it) (bk_items c)"
    and up: "\<And>e. e \<in> set (events s)
               \<Longrightarrow> availableSeats e + reserved R (bookings s) (ev_id e) \<le> totalSeats e"
    by (auto simp: recorded_def list_all_iff)
  from find_by_id_Some [OF found] have bmem: "b \<in> set (bookings s)" and bid: "bk_id b = bid"
    by simp_all
  define B where "B = item_sum (bk_items b)"
  have Bnonneg: "0 \<le> B x" for x
    unfolding B_def using qs [OF bmem] bid inR by (intro item_sum_nonneg) simp
  have res: "reserved R (bookings s1) x = reserved R (bookings s) x - B x" for x
    unfolding s1 B_def using reserved_cancel [OF dist inR found conf] by simp
  have q1: "list_all (\<lambda>c. bk_id c \<notin> set R \<or> list_all (\<lambda>it. 0 \<le> bi_quantity it) (bk_items c))
              (bookings s1)"
    unfolding list_all_iff
  proof
    fix c' assume "c' \<in> set (bookings s1)"
    then obtain c where "c \<in> set (bookings s)" "bk_id c' = bk_id c" "bk_items c' = bk_items c"
      unfolding s1 using booking_cancel_items [of c' "bookings s" bid] by auto
    with qs [of c] show "bk_id c' \<notin> set R \<or> (\<forall>it \<in> set (bk_items c'). 0 \<le> bi_quantity it)"
      by (auto simp: list_all_iff)
  qed
  have rows: "\<exists>e \<in> set (events s). ev_id e' = ev_id e \<and> totalSeats e' = totalSeats e
                \<and> availableSeats e' = availableSeats e + B (ev_id e)"
    if "e' \<in> set (events s1)" for e'
  proof (rule rows_by_maps [of "events s1" "events s"])
    show "map ev_id (events s1) = map ev_id (events s)" unfolding s1 by simp
    show "map totalSeats (events s1) = map totalSeats (events s)" unfolding s1 by simp
    show "map availableSeats (events s1) = map (\<lambda>e. availableSeats e + B (ev_id e)) (events s)"
      unfolding s1 B_def by (simp add: avail_restore_all)
    show "e' \<in> set (events s1)" by (rule that)
  qed
  have pk1: "events_pk s1" unfolding events_pk_def s1 using pk by simp
  have r1: "distinct (filter (\<lambda>i. i \<in> set R) (map bk_id (bookings s1)))"
    unfolding s1 using dist by simp
  have r3: "list_all (\<lambda>e. availableSeats e + reserved R (bookings s1) (ev_id e) \<le> totalSeats e)
              (events s1)"
    unfolding list_all_iff
  proof
    fix e' assume "e' \<in> set (events s1)"
    from rows [OF this] obtain e where e: "e \<in> set (events s)"
      and eq: "ev_id e' = ev_id e" "totalSeats e' = totalSeats e"
        "availableSeats e' = availableSeats e + B (ev_id e)"
      by blast
    from up [OF e] res [of "ev_id e"] eq
    show "availableSeats e' + reserved R (bookings s1) (ev_id e') \<le> totalSeats e'" by simp
  qed
  have si1: "seats_inv s1"
    unfolding seats_inv_def list_all_iff
  proof
    fix e' assume e': "e' \<in> set (events s1)"
    from rows [OF this] obtain e where e: "e \<in> set (events s)"
      and eq: "ev_id e' = ev_id e" "totalSeats e' = totalSeats e"
        "availableSeats e' = availableSeats e + B (ev_id e)"
      by blast
    from r3 e' have "availableSeats e' + reserved R (bookings s1) (ev_id e') \<le> totalSeats e'"
      by (simp add: list_all_iff)
    moreover have "0 \<le> reserved R (bookings s1) (ev_id e')"
      using q1 by (rule reserved_nonneg)
    moreover have "0 \<le> availableSeats e"
      using seats_inv_lower [OF si e] .
    ultimately show "0 \<le> availableSeats e' \<and> availableSeats e' \<le> totalSeats e'"
      using eq Bnonneg [of "ev_id e"] by simp
  qed
  from pk1 si1 r1 q1 r3 show ?thesis
    unfolding s1_def [symmetric] by (simp add: ledger_inv_def recorded_def)
qed

lemma ledger_run:
  "ledger_inv R s \<Longrightarrow> admissible channel R s reqs \<Longrightarrow> list_all seats_inv (states channel s reqs)"
proof (induction reqs arbitrary: R s)
  case Nil
  then show ?case by (simp add: ledger_inv_def)
next
  case (Cons req reqs)
  from Cons.prems(1) have now: "seats_inv s" by (simp add: ledger_inv_def)
  show ?case
  proof (cases req)
    case (CreateBooking input key en)
    with Cons.prems(2) have pre: "schema_pre input"
      and rest: "admissible channel (R @ new_ids s (step channel s req)) (step channel s req) reqs"
      by simp_all
    from step_create_ledger [OF Cons.prems(1) pre, of channel key en] CreateBooking
    have "ledger_inv (R @ new_ids s (step channel s req)) (step channel s req)" by simp
    from Cons.IH [OF this rest] now show ?thesis by simp
  next
    case (CancelBooking bid t)
    with Cons.prems(2) have inR: "bid \<in> set R"
      and rest: "admissible channel R (step channel s req) reqs"
      by simp_all
    from cancel_ledger [OF Cons.prems(1) inR, of t] CancelBooking
    have "ledger_inv R (step channel s req)" by simp
    from Cons.IH [OF this rest] now show ?thesis by simp
  qed
qed

lemma recorded_empty: "seats_inv s \<Longrightarrow> recorded [] s"
  by (simp add: recorded_def seats_inv_def reserved_def list_all_iff)

text \<open>C1: from a store with unique event identifiers that satisfies the seat invariant
  \<open>0 \<le> availableSeats \<le> totalSeats\<close> for every event, and in whose ledger the decrements of
  the bookings \<open>R\<close> are recorded, every run of \<^verbatim>\<open>createBooking\<close> and \<^verbatim>\<open>cancelBooking\<close>
  calls whose create requests meet the preconditions of the schema (every quantity in
  \<open>[1, 3]\<close>, no event twice) and whose cancel requests name bookings of \<open>R\<close> or bookings
  that the run has created satisfies the seat invariant in every store it passes
  through. With \<open>R\<close> empty the assumption on the ledger is the seat invariant itself.\<close>

theorem seats_invariant:
  assumes "events_pk s" and "seats_inv s" and "recorded R s"
    and "admissible channel R s reqs"
  shows "list_all seats_inv (states channel s reqs)"
  using ledger_run [of R s channel reqs] assms by (simp add: ledger_inv_def)

text \<open>A run from the store \<open>booked\<close>, whose booking \<open>b1\<close> is recorded, with a channel that
  always throws: the concert is sold out, a further request for it fails, both bookings
  are cancelled, and the second cancel of \<open>b2\<close> fails. The seats available for the jazz
  night and the concert are 49 and 2, then 49 and 0 twice, 50 and 0, and 50 and 2
  twice.\<close>

theorem seats_invariant_witness:
  "events_pk booked \<and> seats_inv booked \<and> recorded [''b1''] booked
   \<and> admissible (\<lambda>n. Inl ''SMTP down'') [''b1''] booked
        [CreateBooking (order [(''e-concert'', 2)]) None \<lparr>newId = ''b2'', now = 8\<rparr>,
         CreateBooking (order [(''e-jazz'', 3), (''e-concert'', 1)]) None \<lparr>newId = ''b3'', now = 9\<rparr>,
         CancelBooking ''b1'' 10,
         CancelBooking ''b2'' 11,
         CancelBooking ''b2'' 12]
   \<and> list_all seats_inv (states (\<lambda>n. Inl ''SMTP down'') booked
        [CreateBooking (order [(''e-concert'', 2)]) None \<lparr>newId = ''b2'', now = 8\<rparr>,
         CreateBooking (order [(''e-jazz'', 3), (''e-concert'', 1)]) None \<lparr>newId = ''b3'', now = 9\<rparr>,
         CancelBooking ''b1'' 10,
         CancelBooking ''b2'' 11,
         CancelBooking ''b2'' 12])"
proof -
  have pk: "events_pk booked" by (simp add: events_pk_def ev_defs)
  have si: "seats_inv booked" by (simp add: seats_inv_def ev_defs)
  have re: "recorded [''b1''] booked"
    by (simp add: recorded_def reserved_def item_sum_def seats_for_def ev_defs)
  have ad: "admissible (\<lambda>n. Inl ''SMTP down'') [''b1''] booked
        [CreateBooking (order [(''e-concert'', 2)]) None \<lparr>newId = ''b2'', now = 8\<rparr>,
         CreateBooking (order [(''e-jazz'', 3), (''e-concert'', 1)]) None \<lparr>newId = ''b3'', now = 9\<rparr>,
         CancelBooking ''b1'' 10,
         CancelBooking ''b2'' 11,
         CancelBooking ''b2'' 12]"
    by (simp add: schema_pre_def new_ids_def ev_defs run_defs)
  from seats_invariant [OF pk si re ad] pk si re ad show ?thesis by (intro conjI)
qed

section \<open>Ten requests for the two seats of the concert, one after another\<close>

text \<open>The requests of \<^verbatim>\<open>scripts/concurrency-test.ts\<close>, each for one seat of the concert,
  run as a serial schedule from the seeded store: the first two are confirmed, the
  other eight fail with \<open>InsufficientSeatsError\<close> on an availability of 0, and the
  concert ends with no seat available and two bookings. The ten requests differ only in
  the identifier drawn for the booking, so every serial order is this run up to the
  names of the bookings. That concurrent requests on one event behave as some serial
  schedule is the work of the store's row locks and is not part of this model.\<close>

lemma serial_ten_requests:
  "map (map_sum (\<lambda>err. err) br_status)
     (outcomes ConsoleNotificationChannel seeded
        (map (\<lambda>i. CreateBooking (order [(''e-concert'', 1)]) None \<lparr>newId = i, now = 7\<rparr>)
           [''r0'', ''r1'', ''r2'', ''r3'', ''r4'', ''r5'', ''r6'', ''r7'', ''r8'', ''r9'']))
   = [Inr CONFIRMED, Inr CONFIRMED]
       @ replicate 8 (Inl (InsufficientSeatsError ''e-concert'' 1 0))
   \<and> map (map availableSeats \<circ> events)
     (states ConsoleNotificationChannel seeded
        (map (\<lambda>i. CreateBooking (order [(''e-concert'', 1)]) None \<lparr>newId = i, now = 7\<rparr>)
           [''r0'', ''r1'', ''r2'', ''r3'', ''r4'', ''r5'', ''r6'', ''r7'', ''r8'', ''r9'']))
   = [[50, 2], [50, 1]] @ replicate 9 [50, 0]
   \<and> map bk_id (bookings (last (states ConsoleNotificationChannel seeded
        (map (\<lambda>i. CreateBooking (order [(''e-concert'', 1)]) None \<lparr>newId = i, now = 7\<rparr>)
           [''r0'', ''r1'', ''r2'', ''r3'', ''r4'', ''r5'', ''r6'', ''r7'', ''r8'', ''r9'']))))
   = [''r0'', ''r1'']"
  by (simp add: ev_defs run_defs numeral_eq_Suc)

end
